theory Spec2Isabelle
  imports Complex_Main "HOL-Library.AList"
begin

section \<open>JavaScript strings\<close>

text \<open>
  A JavaScript string is a sequence of UTF-16 code units, and \<open>length\<close> counts code
  units. A string is modelled as the list of its code units; \<open>js\<close> turns an ASCII
  literal into such a list.
\<close>

type_synonym jsstring = "nat list"

definition js :: "string \<Rightarrow> jsstring" where
  "js s = map of_char s"

text \<open>
  \<open>String.prototype.toLowerCase\<close>. The capitals of the Latin-1 range (the ASCII
  letters, and U+00C0 to U+00DE without the sign U+00D7) are mapped to the small letters,
  32 places up; the two code units outside that range whose lower-case form contains an
  ASCII letter (U+0130 and the Kelvin sign U+212A) are mapped as Unicode does. Every other
  code unit is kept, also the capitals above U+00FF that Unicode gives a lower-case form of
  their own: such a form is never a letter \<open>a-z\<close> nor an apostrophe, so the
  tokenizer treats it as a separator either way, and the tokens of a text are those of the
  program for every text. On a lexicon key the function is that of the program when the
  code units of the key are below U+0100.
\<close>

definition lowerUnit :: "nat \<Rightarrow> jsstring" where
  "lowerUnit c =
     (if (65 \<le> c \<and> c \<le> 90) \<or> (192 \<le> c \<and> c \<le> 222 \<and> c \<noteq> 215) then [c + 32]
      else if c = 304 then [105, 775]
      else if c = 8490 then [107]
      else [c])"

definition toLowerCase :: "jsstring \<Rightarrow> jsstring" where
  "toLowerCase s = concat (map lowerUnit s)"

text \<open>\<open>s.replace(a, b)\<close> with a one-unit string pattern: only the first occurrence.\<close>

fun replaceFirst :: "nat \<Rightarrow> nat \<Rightarrow> jsstring \<Rightarrow> jsstring" where
  "replaceFirst a b [] = []"
| "replaceFirst a b (c # cs) = (if c = a then b # cs else c # replaceFirst a b cs)"

definition endsWith :: "jsstring \<Rightarrow> jsstring \<Rightarrow> bool" where
  "endsWith w suf = (length suf \<le> length w \<and> drop (length w - length suf) w = suf)"

text \<open>\<open>w.slice(0, -n)\<close>: the string without its last \<open>n\<close> units.\<close>

definition sliceEnd :: "jsstring \<Rightarrow> nat \<Rightarrow> jsstring" where
  "sliceEnd w n = take (length w - n) w"

text \<open>\<open>key.includes(" ")\<close>\<close>

definition includesSpace :: "jsstring \<Rightarrow> bool" where
  "includesSpace k = (32 \<in> set k)"

text \<open>\<open>s.split(" ")\<close>: never the empty list; the empty string gives one empty part.\<close>

fun splitSpace :: "jsstring \<Rightarrow> jsstring list" where
  "splitSpace [] = [[]]"
| "splitSpace (c # cs) =
     (if c = 32 then [] # splitSpace cs
      else (case splitSpace cs of
              [] \<Rightarrow> [[c]]
            | p # ps \<Rightarrow> (c # p) # ps))"

text \<open>\<open>parts.join(" ")\<close>\<close>

fun joinSpace :: "jsstring list \<Rightarrow> jsstring" where
  "joinSpace [] = []"
| "joinSpace [p] = p"
| "joinSpace (p # q # ps) = p @ 32 # joinSpace (q # ps)"

text \<open>\<open>s.trim()\<close> removes the white space and line terminators at both ends.\<close>

definition isWhiteSpace :: "nat \<Rightarrow> bool" where
  "isWhiteSpace c =
     (c \<in> {9, 10, 11, 12, 13, 32, 160, 5760, 8232, 8233, 8239, 8287, 12288, 65279}
      \<or> (8192 \<le> c \<and> c \<le> 8202))"

definition trim :: "jsstring \<Rightarrow> jsstring" where
  "trim s = rev (dropWhile isWhiteSpace (rev (dropWhile isWhiteSpace s)))"

section \<open>Context tables\<close>

definition NEGATIONS :: "jsstring list" where
  "NEGATIONS = map js
     [''not'', ''no'', ''never'', ''dont'', ''can't'', ''cant'', ''won't'', ''wont'',
      ''didn't'', ''didnt'', ''isn't'', ''isnt'', ''aren't'', ''arent'']"

definition INTENSIFIERS :: "(jsstring \<times> real) list" where
  "INTENSIFIERS =
     [(js ''very'', 1.6),
      (js ''really'', 1.4),
      (js ''so'', 1.3),
      (js ''extremely'', 2.0),
      (js ''super'', 1.6),
      (js ''incredibly'', 2.0),
      (js ''insanely'', 2.0)]"

definition DIMINISHERS :: "(jsstring \<times> real) list" where
  "DIMINISHERS =
     [(js ''kinda'', 0.55),
      (js ''kindof'', 0.55),
      (js ''sorta'', 0.60),
      (js ''somewhat'', 0.65),
      (js ''slightly'', 0.60),
      (js ''little'', 0.50),
      (js ''a'', 1.0),
      (js ''a little'', 0.50),
      (js ''a bit'', 0.55),
      (js ''a little bit'', 0.45),
      (js ''kind of'', 0.55),
      (js ''sort of'', 0.60),
      (js ''not that'', 0.60),
      (js ''a touch'', 0.55),
      (js ''a tad'', 0.55)]"

section \<open>Token normalization and tokenizing\<close>

text \<open>
  One test of the contraction block of \<open>normalizeToken\<close>:
  \<open>if (w === a || w === b) w = b\<close>; the block is seven of them in a row.
\<close>

definition contraction :: "jsstring \<Rightarrow> jsstring \<Rightarrow> jsstring \<Rightarrow> jsstring" where
  "contraction a b w = (if w = a \<or> w = b then b else w)"

definition canonContraction :: "jsstring \<Rightarrow> jsstring" where
  "canonContraction w =
     contraction (js ''aren't'') (js ''arent'')
       (contraction (js ''isn't'') (js ''isnt'')
         (contraction (js ''didn't'') (js ''didnt'')
           (contraction (js ''don't'') (js ''dont'')
             (contraction (js ''won't'') (js ''wont'')
               (contraction (js ''can't'') (js ''cant'')
                 (contraction (js ''i'm'') (js ''im'') w))))))"

text \<open>The suffix rules, each evaluated once on the result of the one before.\<close>

definition stripPlural :: "jsstring \<Rightarrow> jsstring" where
  "stripPlural w =
     (if 5 \<le> length w \<and> endsWith w (js ''s'') \<and> \<not> endsWith w (js ''ss'')
      then sliceEnd w 1 else w)"

definition stripLy :: "jsstring \<Rightarrow> jsstring" where
  "stripLy w = (if 6 \<le> length w \<and> endsWith w (js ''ly'') then sliceEnd w 2 else w)"

definition stripNess :: "jsstring \<Rightarrow> jsstring" where
  "stripNess w = (if 7 \<le> length w \<and> endsWith w (js ''ness'') then sliceEnd w 4 else w)"

definition stripIng :: "jsstring \<Rightarrow> jsstring" where
  "stripIng w = (if 7 \<le> length w \<and> endsWith w (js ''ing'') then sliceEnd w 3 else w)"

definition stripEd :: "jsstring \<Rightarrow> jsstring" where
  "stripEd w = (if 6 \<le> length w \<and> endsWith w (js ''ed'') then sliceEnd w 2 else w)"

definition stripErEst :: "jsstring \<Rightarrow> jsstring" where
  "stripErEst w =
     (if 6 \<le> length w \<and> endsWith w (js ''est'') then sliceEnd w 3
      else if 6 \<le> length w \<and> endsWith w (js ''er'') then sliceEnd w 2
      else w)"

definition stripSuffixes :: "jsstring \<Rightarrow> jsstring" where
  "stripSuffixes w = stripErEst (stripEd (stripIng (stripNess (stripLy (stripPlural w)))))"

text \<open>
  The trimming block as a whole, from \<open>const original = w\<close> to the end: a result
  shorter than two units is discarded for \<open>original\<close>.
\<close>

definition trimSuffixes :: "jsstring \<Rightarrow> jsstring" where
  "trimSuffixes original =
     (let w = stripSuffixes original in if length w < 2 then original else w)"

text \<open>
  \<open>normalizeToken(raw)\<close>: lower case, the first curly apostrophe (U+2019) made
  straight, contractions, then the trimming block.
\<close>

definition normalizeToken :: "jsstring \<Rightarrow> jsstring" where
  "normalizeToken raw =
     (if raw = [] then []
      else trimSuffixes (canonContraction (replaceFirst 8217 39 (toLowerCase raw))))"

text \<open>\<open>s.match(/[a-z']+/g) || []\<close>: the maximal runs of small letters and apostrophes.\<close>

definition isTokenUnit :: "nat \<Rightarrow> bool" where
  "isTokenUnit c = ((97 \<le> c \<and> c \<le> 122) \<or> c = 39)"

fun matchRuns :: "jsstring \<Rightarrow> jsstring \<Rightarrow> jsstring list" where
  "matchRuns cur [] = (if cur = [] then [] else [cur])"
| "matchRuns cur (c # cs) =
     (if isTokenUnit c then matchRuns (cur @ [c]) cs
      else if cur = [] then matchRuns [] cs
      else cur # matchRuns [] cs)"

definition tokenize :: "jsstring \<Rightarrow> jsstring list" where
  "tokenize txt = map normalizeToken (matchRuns [] (toLowerCase txt))"

section \<open>Numbers\<close>

text \<open>
  A number of the program is an IEEE double. It is modelled as a real, or as \<open>NaN\<close>:
  the arithmetic of the program gives \<open>NaN\<close> when an operand is \<open>NaN\<close> or is not a
  number at all (a function, an object), and so does \<open>Math.max\<close>. Rounding and the
  infinities are not modelled. The comparison \<open>lessNum\<close> is the one of the program:
  false when an operand is \<open>NaN\<close>.
\<close>

datatype jsnum = Num real | NaN

fun plusNum :: "jsnum \<Rightarrow> jsnum \<Rightarrow> jsnum" where
  "plusNum (Num a) (Num b) = Num (a + b)"
| "plusNum _ _ = NaN"

fun timesNum :: "jsnum \<Rightarrow> jsnum \<Rightarrow> jsnum" where
  "timesNum (Num a) (Num b) = Num (a * b)"
| "timesNum _ _ = NaN"

fun maxNum :: "jsnum \<Rightarrow> jsnum \<Rightarrow> jsnum" where
  "maxNum (Num a) (Num b) = Num (max a b)"
| "maxNum _ _ = NaN"

fun lessNum :: "jsnum \<Rightarrow> jsnum \<Rightarrow> bool" where
  "lessNum (Num a) (Num b) = (a < b)"
| "lessNum _ _ = False"

section \<open>The lexicon\<close>

datatype emotion = Anger | Joy | Sad

text \<open>
  A table is one emotion's object, a plain object made by an object literal or by
  \<open>JSON.parse\<close>: its own keys with their weights, in key order (a new key goes to the
  end of the list; JavaScript lists integer-like keys first, but no phrase key is one,
  and only the order of the phrase keys is ever read). A lexicon has the three emotion
  keys; \<open>emotions\<close> is \<open>Object.keys(lexicon)\<close>.
\<close>

type_synonym table = "(jsstring \<times> jsnum) list"

type_synonym lexicon = "emotion \<Rightarrow> table"

definition emotions :: "emotion list" where
  "emotions = [Anger, Joy, Sad]"

text \<open>\<open>x ?? d\<close>\<close>

definition coalesce :: "'a option \<Rightarrow> 'a \<Rightarrow> 'a" where
  "coalesce x d = (case x of None \<Rightarrow> d | Some v \<Rightarrow> v)"

text \<open>
  The property names a plain object inherits from \<open>Object.prototype\<close>. All of them
  but \<open>__proto__\<close> hold a function; \<open>__proto__\<close> is an accessor that reads as the
  prototype object and whose setter ignores a value that is not an object.
\<close>

definition objectPrototypeKeys :: "jsstring list" where
  "objectPrototypeKeys = map js
     [''constructor'', ''hasOwnProperty'', ''isPrototypeOf'', ''propertyIsEnumerable'',
      ''toLocaleString'', ''toString'', ''valueOf'', ''__proto__'',
      ''__defineGetter__'', ''__defineSetter__'', ''__lookupGetter__'', ''__lookupSetter__'']"

text \<open>
  The read \<open>obj[k]\<close> on a table: \<open>None\<close> is \<open>undefined\<close>. An own key gives its
  weight. A key the table does not own is looked up on the prototype: an inherited name
  gives a function or an object, which is not \<open>null\<close> and which is \<open>NaN\<close> in the
  arithmetic and in \<open>Math.max\<close>, the only uses the program makes of the value read.
\<close>

definition getProp :: "table \<Rightarrow> jsstring \<Rightarrow> jsnum option" where
  "getProp t k =
     (case map_of t k of
        Some v \<Rightarrow> Some v
      | None \<Rightarrow> if k \<in> set objectPrototypeKeys then Some NaN else None)"

text \<open>
  \<open>out[emotion][k] = Math.max(out[emotion][k] ?? 0, weight)\<close>. The write makes an own
  key, except for \<open>__proto__\<close>: the value written is a number, which the setter ignores.
\<close>

definition putMax :: "jsstring \<Rightarrow> jsnum \<Rightarrow> table \<Rightarrow> table" where
  "putMax k wt out =
     (if k = js ''__proto__'' then out
      else AList.update k (maxNum (coalesce (getProp out k) (Num 0)) wt) out)"

text \<open>
  The body of the inner loop of \<open>normalizeLexiconKeys\<close>, for one entry. A key with a
  space is none of the inherited names, so its write is a plain update.
\<close>

definition normalizeEntry :: "jsstring \<times> jsnum \<Rightarrow> table \<Rightarrow> table" where
  "normalizeEntry kv out =
     (if includesSpace (fst kv) then AList.update (fst kv) (snd kv) out
      else putMax (normalizeToken (toLowerCase (fst kv))) (snd kv)
             (putMax (toLowerCase (fst kv)) (snd kv) out))"

definition normalizeLexiconKeys :: "lexicon \<Rightarrow> lexicon" where
  "normalizeLexiconKeys lexicon = (\<lambda>e. fold normalizeEntry (lexicon e) [])"

text \<open>
  An entry of the phrase list. Its weight is read at an own key of the table
  (\<open>Object.keys\<close>).
\<close>

record phrase_entry =
  phrase :: jsstring
  emotion :: emotion
  weight :: jsnum

definition normalizePhrase :: "jsstring \<Rightarrow> jsstring" where
  "normalizePhrase key = joinSpace (map normalizeToken (splitSpace key))"

definition phrasesOf :: "lexicon \<Rightarrow> emotion \<Rightarrow> phrase_entry list" where
  "phrasesOf lexicon e =
     map (\<lambda>kv. \<lparr>phrase = normalizePhrase (fst kv), emotion = e, weight = snd kv\<rparr>)
       (filter (\<lambda>kv. includesSpace (fst kv)) (lexicon e))"

definition wordCount :: "phrase_entry \<Rightarrow> nat" where
  "wordCount p = length (splitSpace (phrase p))"

text \<open>The sort is stable; longest phrases first.\<close>

definition extractPhrases :: "lexicon \<Rightarrow> phrase_entry list" where
  "extractPhrases lexicon =
     sort_key (\<lambda>p. - int (wordCount p)) (concat (map (phrasesOf lexicon) emotions))"

section \<open>The diminisher look-ahead\<close>

text \<open>\<open>words[j] || ""\<close>: the empty string outside the array.\<close>

definition wordAt :: "jsstring list \<Rightarrow> int \<Rightarrow> jsstring" where
  "wordAt ws j = (if 0 \<le> j \<and> j < int (length ws) then ws ! nat j else [])"

definition getPostDiminisher :: "jsstring list \<Rightarrow> nat \<Rightarrow> real" where
  "getPostDiminisher ws i =
     coalesce (map_of DIMINISHERS
        (trim (wordAt ws (int i + 1) @ 32 # wordAt ws (int i + 2) @ 32 #
               wordAt ws (int i + 3) @ 32 # wordAt ws (int i + 4))))
      (coalesce (map_of DIMINISHERS
        (trim (wordAt ws (int i + 1) @ 32 # wordAt ws (int i + 2) @ 32 #
               wordAt ws (int i + 3))))
      (coalesce (map_of DIMINISHERS
        (trim (wordAt ws (int i + 1) @ 32 # wordAt ws (int i + 2))))
      (coalesce (map_of DIMINISHERS (wordAt ws (int i + 1))) 1.0)))"

section \<open>The scorer\<close>

record score_result =
  anger :: jsnum
  joy :: jsnum
  sad :: jsnum
  hits :: nat
  totalWords :: nat

text \<open>The variables of the scan: \<open>scores\<close>, \<open>hits\<close> and the array \<open>used\<close>.\<close>

record scan_state =
  scores :: "emotion \<Rightarrow> jsnum"
  hitCount :: nat
  used :: "bool list"

text \<open>\<open>words.findIndex(P)\<close>: the first index, or \<open>-1\<close>.\<close>

fun findIndexFrom :: "nat \<Rightarrow> ('a \<Rightarrow> bool) \<Rightarrow> 'a list \<Rightarrow> int" where
  "findIndexFrom n P [] = - 1"
| "findIndexFrom n P (x # xs) = (if P x then int n else findIndexFrom (Suc n) P xs)"

definition isContrast :: "jsstring \<Rightarrow> bool" where
  "isContrast w = (w = js ''but'' \<or> w = js ''however'' \<or> w = js ''though'')"

definition contrastIndex :: "jsstring list \<Rightarrow> int" where
  "contrastIndex ws = findIndexFrom 0 isContrast ws"

text \<open>The test of one phrase at \<open>i\<close>: \<open>words[i + k] === parts[k]\<close> for every \<open>k\<close>.\<close>

fun partsMatch :: "jsstring list \<Rightarrow> nat \<Rightarrow> jsstring list \<Rightarrow> bool" where
  "partsMatch ws i [] = True"
| "partsMatch ws i (q # qs) = (i < length ws \<and> ws ! i = q \<and> partsMatch ws (Suc i) qs)"

definition phraseAt :: "jsstring list \<Rightarrow> nat \<Rightarrow> phrase_entry \<Rightarrow> bool" where
  "phraseAt ws i p = partsMatch ws i (splitSpace (phrase p))"

text \<open>
  The look-back at the one or two words before \<open>i\<close>; the three tables are a \<open>Set\<close>
  and two \<open>Map\<close>s, which hold their own entries only.
\<close>

definition isNegated :: "jsstring list \<Rightarrow> nat \<Rightarrow> bool" where
  "isNegated ws i =
     (wordAt ws (int i - 1) \<in> set NEGATIONS \<or> wordAt ws (int i - 2) \<in> set NEGATIONS)"

definition intensity :: "jsstring list \<Rightarrow> nat \<Rightarrow> real" where
  "intensity ws i =
     coalesce (map_of INTENSIFIERS (wordAt ws (int i - 1)))
       (coalesce (map_of INTENSIFIERS (wordAt ws (int i - 2))) 1.0)"

definition soften :: "jsstring list \<Rightarrow> nat \<Rightarrow> real" where
  "soften ws i =
     coalesce (map_of DIMINISHERS (wordAt ws (int i - 1)))
       (coalesce (map_of DIMINISHERS (wordAt ws (int i - 2))) 1.0)"

definition contrastBoost :: real where
  "contrastBoost = 1.6"

text \<open>
  The weight a match at \<open>i\<close> adds; the phrase branch and the word branch of the scan
  hold the same lines.
\<close>

definition contribution :: "jsstring list \<Rightarrow> int \<Rightarrow> nat \<Rightarrow> jsnum \<Rightarrow> jsnum" where
  "contribution ws contrastIdx i wt =
     (let w = timesNum (timesNum wt (Num (intensity ws i))) (Num (soften ws i));
          w' = (if contrastIdx \<noteq> - 1 \<and> int i > contrastIdx
                then timesNum w (Num contrastBoost) else w)
      in if isNegated ws i then timesNum w' (Num (- 0.8)) else w')"

definition addScore :: "emotion \<Rightarrow> jsnum \<Rightarrow> scan_state \<Rightarrow> scan_state" where
  "addScore e w st =
     st\<lparr>scores := (scores st)(e := plusNum (scores st e) w), hitCount := hitCount st + 1\<rparr>"

text \<open>\<open>for (k = 0; k < len; k++) used[i + k] = true\<close>\<close>

definition markUsed :: "nat \<Rightarrow> nat \<Rightarrow> bool list \<Rightarrow> bool list" where
  "markUsed i len u = fold (\<lambda>k v. v[i + k := True]) [0..<len] u"

text \<open>
  The body of the loop over the emotions, for the word at \<open>i\<close>:
  \<open>lexicon[emotion][word]\<close> is a read on a table, which finds inherited names too.
\<close>

definition scoreWord ::
  "lexicon \<Rightarrow> jsstring list \<Rightarrow> int \<Rightarrow> nat \<Rightarrow> emotion \<Rightarrow> scan_state \<Rightarrow> scan_state" where
  "scoreWord lexicon ws contrastIdx i e st =
     (case getProp (lexicon e) (ws ! i) of
        None \<Rightarrow> st
      | Some wl \<Rightarrow> addScore e (contribution ws contrastIdx i wl) st)"

text \<open>One turn of the loop over \<open>i\<close>.\<close>

definition scanStep ::
  "lexicon \<Rightarrow> phrase_entry list \<Rightarrow> jsstring list \<Rightarrow> int \<Rightarrow> nat \<Rightarrow> scan_state \<Rightarrow> scan_state" where
  "scanStep lexicon phrases ws contrastIdx i st =
     (if used st ! i then st
      else
        (case find (phraseAt ws i) phrases of
           Some p \<Rightarrow>
             addScore (emotion p) (contribution ws contrastIdx i (weight p))
               (st\<lparr>used := markUsed i (wordCount p) (used st)\<rparr>)
         | None \<Rightarrow> fold (scoreWord lexicon ws contrastIdx i) emotions st))"

definition initState :: "nat \<Rightarrow> scan_state" where
  "initState n = \<lparr>scores = (\<lambda>e. Num 0), hitCount = 0, used = replicate n False\<rparr>"

text \<open>The state after the first \<open>k\<close> turns of the loop, and after all of them.\<close>

definition scanUpTo ::
  "lexicon \<Rightarrow> phrase_entry list \<Rightarrow> jsstring list \<Rightarrow> nat \<Rightarrow> scan_state" where
  "scanUpTo lexicon phrases ws k =
     fold (scanStep lexicon phrases ws (contrastIndex ws)) [0..<k] (initState (length ws))"

definition scanAll :: "lexicon \<Rightarrow> phrase_entry list \<Rightarrow> jsstring list \<Rightarrow> scan_state" where
  "scanAll lexicon phrases ws = scanUpTo lexicon phrases ws (length ws)"

text \<open>
  \<open>scoreTextWithContext(text, lexicon, phrases)\<close>; a lexicon that is \<open>null\<close> is
  \<open>None\<close>.
\<close>

definition scoreTextWithContext ::
  "jsstring \<Rightarrow> lexicon option \<Rightarrow> phrase_entry list \<Rightarrow> score_result" where
  "scoreTextWithContext txt lexicon phrases =
     (let ws = tokenize txt in
      case lexicon of
        None \<Rightarrow> \<lparr>anger = Num 0, joy = Num 0, sad = Num 0, hits = 0, totalWords = length ws\<rparr>
      | Some lx \<Rightarrow>
          if length ws = 0
          then \<lparr>anger = Num 0, joy = Num 0, sad = Num 0, hits = 0, totalWords = length ws\<rparr>
          else
            (let st = scanAll lx phrases ws
             in \<lparr>anger = scores st Anger, joy = scores st Joy, sad = scores st Sad,
                 hits = hitCount st, totalWords = length ws\<rparr>))"

section \<open>Notions used in the statements\<close>

text \<open>The no-apostrophe spellings the contraction block produces.\<close>

definition contracted :: "jsstring set" where
  "contracted = js ` {''im'', ''cant'', ''wont'', ''dont'', ''didnt'', ''isnt'', ''arent''}"

text \<open>The sum of a list of numbers, \<open>NaN\<close> as soon as one of them is.\<close>

fun sumNum :: "jsnum list \<Rightarrow> jsnum" where
  "sumNum [] = Num 0"
| "sumNum (x # xs) = plusNum x (sumNum xs)"

text \<open>
  The matches that start at index \<open>i\<close>, each with its emotion and the weight read for
  it: the first phrase of the list that matches there, or else the word under every
  emotion whose table gives it a value, own or inherited.
\<close>

definition wordMatches :: "lexicon \<Rightarrow> jsstring \<Rightarrow> (emotion \<times> jsnum) list" where
  "wordMatches lexicon w =
     concat (map (\<lambda>e. case getProp (lexicon e) w of None \<Rightarrow> [] | Some wl \<Rightarrow> [(e, wl)])
       emotions)"

definition matchesAt ::
  "lexicon \<Rightarrow> phrase_entry list \<Rightarrow> jsstring list \<Rightarrow> nat \<Rightarrow> (emotion \<times> jsnum) list" where
  "matchesAt lexicon phrases ws i =
     (case find (phraseAt ws i) phrases of
        Some p \<Rightarrow> [(emotion p, weight p)]
      | None \<Rightarrow> wordMatches lexicon (ws ! i))"

text \<open>What a list of matches at \<open>i\<close> adds to the total of the emotion \<open>e\<close>.\<close>

definition gain ::
  "jsstring list \<Rightarrow> int \<Rightarrow> nat \<Rightarrow> emotion \<Rightarrow> (emotion \<times> jsnum) list \<Rightarrow> jsnum" where
  "gain ws contrastIdx i e ms =
     sumNum (map (\<lambda>m. if fst m = e then contribution ws contrastIdx i (snd m) else Num 0) ms)"

text \<open>The lexicons of the examples, as the JSON resource would give them.\<close>

definition exciteLexicon :: lexicon where
  "exciteLexicon e = (case e of Joy \<Rightarrow> [(js ''excite'', Num 1)] | _ \<Rightarrow> [])"

definition burnedTable :: table where
  "burnedTable = [(js ''burned out'', Num 2), (js ''burned'', Num 1)]"

definition burnOut :: phrase_entry where
  "burnOut = \<lparr>phrase = js ''burn out'', emotion = Sad, weight = Num 2\<rparr>"

definition burnedLexicon :: lexicon where
  "burnedLexicon e = (case e of Sad \<Rightarrow> burnedTable | _ \<Rightarrow> [])"

definition notHappyLexicon :: lexicon where
  "notHappyLexicon e =
     (case e of Joy \<Rightarrow> [(js ''happy'', Num 1)] | Sad \<Rightarrow> [(js ''not happy'', Num (3 / 2))]
      | Anger \<Rightarrow> [])"

definition plainLexicon :: lexicon where
  "plainLexicon e =
     (case e of Anger \<Rightarrow> [(js ''angry'', Num 1)] | Joy \<Rightarrow> [(js ''happy'', Num 1)]
      | Sad \<Rightarrow> [(js ''sad'', Num 1)])"

definition veryAngryLexicon :: lexicon where
  "veryAngryLexicon e =
     (case e of Anger \<Rightarrow> [(js ''angry'', Num 1), (js ''very angry'', Num 2)] | _ \<Rightarrow> [])"

definition ohNoLexicon :: lexicon where
  "ohNoLexicon e =
     (case e of Joy \<Rightarrow> [(js ''happy'', Num 1)] | Sad \<Rightarrow> [(js ''oh no'', Num 1)]
      | Anger \<Rightarrow> [])"

definition ohNo :: phrase_entry where
  "ohNo = \<lparr>phrase = js ''oh no'', emotion = Sad, weight = Num 1\<rparr>"

definition collideLexicon :: lexicon where
  "collideLexicon e =
     (case e of Sad \<Rightarrow> [(js ''Cares'', Num 1), (js ''care'', Num (1 / 2)), (js ''fed up'', Num 2)]
      | _ \<Rightarrow> [])"

definition constructorLexicon :: lexicon where
  "constructorLexicon e =
     (case e of Sad \<Rightarrow> [(js ''constructor'', Num 1), (js ''__proto__'', Num 2)] | _ \<Rightarrow> [])"

text \<open>
  A raw key neither of whose stored forms is an inherited name; an entry with such a key
  or a key of several words, made of code units below U+0100, and with a weight that is a
  number and not negative; a table that holds no \<open>NaN\<close>.
\<close>

definition plainForms :: "jsstring \<Rightarrow> bool" where
  "plainForms k =
     (toLowerCase k \<notin> set objectPrototypeKeys
      \<and> normalizeToken (toLowerCase k) \<notin> set objectPrototypeKeys)"

definition plainEntry :: "jsstring \<times> jsnum \<Rightarrow> bool" where
  "plainEntry kv =
     ((\<exists>w\<ge>0. snd kv = Num w) \<and> (\<forall>c\<in>set (fst kv). c < 256)
      \<and> (includesSpace (fst kv) \<or> plainForms (fst kv)))"

definition numeric :: "table \<Rightarrow> bool" where
  "numeric t = (\<forall>k. map_of t k \<noteq> Some NaN)"

text \<open>
  The diminisher table without its keys of several words; the \<open>n\<close>-word window after
  position \<open>i\<close>, joined by spaces (shorter when fewer words follow); and the look-ahead
  as the specification words it: the first of the 4-, 3-, 2- and 1-word windows that is a
  key of the table gives the factor, else \<open>1.0\<close>.
\<close>

definition singleWordDiminishers :: "(jsstring \<times> real) list" where
  "singleWordDiminishers = filter (\<lambda>kv. \<not> includesSpace (fst kv)) DIMINISHERS"

definition windowAfter :: "jsstring list \<Rightarrow> nat \<Rightarrow> nat \<Rightarrow> jsstring" where
  "windowAfter ws i n = joinSpace (take n (drop (Suc i) ws))"

definition postDiminisherSpec :: "jsstring list \<Rightarrow> nat \<Rightarrow> real" where
  "postDiminisherSpec ws i =
     coalesce (map_of DIMINISHERS (windowAfter ws i 4))
       (coalesce (map_of DIMINISHERS (windowAfter ws i 3))
         (coalesce (map_of DIMINISHERS (windowAfter ws i 2))
           (coalesce (map_of DIMINISHERS (windowAfter ws i 1)) 1.0)))"

text \<open>
  The factor of a match at \<open>i\<close> as a function of the two tokens before \<open>i\<close> and of the
  pivot \<open>c\<close> alone: intensifier, single-word diminisher, contrast, negation. No token
  after \<open>i\<close> and no diminisher key of several words is read.
\<close>

definition lookBackFactor :: "jsstring list \<Rightarrow> int \<Rightarrow> nat \<Rightarrow> real" where
  "lookBackFactor ws c i =
     coalesce (map_of INTENSIFIERS (wordAt ws (int i - 1)))
       (coalesce (map_of INTENSIFIERS (wordAt ws (int i - 2))) 1)
     * coalesce (map_of singleWordDiminishers (wordAt ws (int i - 1)))
         (coalesce (map_of singleWordDiminishers (wordAt ws (int i - 2))) 1)
     * (if c \<noteq> - 1 \<and> c < int i then 1.6 else 1)
     * (if wordAt ws (int i - 1) \<in> set NEGATIONS \<or> wordAt ws (int i - 2) \<in> set NEGATIONS
        then - 0.8 else 1)"

text \<open>
  The weight of a match at \<open>i\<close> before any contrast multiplier: lexicon weight,
  intensifier, diminisher, and the factor \<open>-0.8\<close> when negated.
\<close>

definition baseContribution :: "jsstring list \<Rightarrow> nat \<Rightarrow> jsnum \<Rightarrow> jsnum" where
  "baseContribution ws i wt =
     (let w = timesNum (timesNum wt (Num (intensity ws i))) (Num (soften ws i))
      in if isNegated ws i then timesNum w (Num (- 0.8)) else w)"

text \<open>The contrast markers.\<close>

definition contrastWords :: "jsstring set" where
  "contrastWords = {js ''but'', js ''however'', js ''though''}"

section \<open>Evaluating the functions on literals\<close>

lemma js_Nil: "js [] = []"
  by (simp add: js_def)

lemma js_Cons: "js (c # cs) = of_char c # js cs"
  by (simp add: js_def)

lemmas js_simps = js_Nil js_Cons

lemma js_eq_iff [simp]: "js a = js b \<longleftrightarrow> a = b"
  unfolding js_def by (rule inj_map_eq_map) (rule inj_of_char)

lemma js_eq_Nil [simp]: "js a = [] \<longleftrightarrow> a = []" "[] = js a \<longleftrightarrow> a = []"
  by (auto simp: js_def)

lemma length_js [simp]: "length (js a) = length a"
  by (simp add: js_def)

lemma js_mem_iff [simp]: "js a \<in> set (map js xs) \<longleftrightarrow> a \<in> set xs"
  by (induction xs) auto

lemmas strip_defs = stripSuffixes_def stripPlural_def stripLy_def stripNess_def
  stripIng_def stripEd_def stripErEst_def endsWith_def sliceEnd_def

lemmas lower_defs = toLowerCase_def lowerUnit_def

lemmas token_eval = normalizeToken_def trimSuffixes_def Let_def js_simps lower_defs canonContraction_def contraction_def strip_defs
  tokenize_def isTokenUnit_def

lemma toLowerCase_E_acute: "toLowerCase [201] = [233]"
  by (simp add: lower_defs)

lemma plusNum_zero [simp]: "plusNum (Num 0) x = x" "plusNum x (Num 0) = x"
  by (cases x; simp)+

lemma plusNum_assoc: "plusNum (plusNum a b) c = plusNum a (plusNum b c)"
  by (cases a; cases b; cases c) simp_all

lemma timesNum_one [simp]: "timesNum x (Num 1) = x" "timesNum (Num 1) x = x"
  by (cases x; simp)+

lemma timesNum_Num: "timesNum (timesNum x (Num a)) (Num b) = timesNum x (Num (a * b))"
  by (cases x) simp_all

lemma sumNum_append: "sumNum (xs @ ys) = plusNum (sumNum xs) (sumNum ys)"
  by (induction xs) (simp_all add: plusNum_assoc)

lemma token_not_inherited:
  "\<forall>c\<in>set w. isTokenUnit c \<Longrightarrow> w \<noteq> js ''constructor'' \<Longrightarrow> w \<notin> set objectPrototypeKeys"
  by (auto simp: objectPrototypeKeys_def js_simps isTokenUnit_def)

section \<open>Absent lexicon, empty token sequence\<close>

lemma matchRuns_no_token:
  "\<forall>c\<in>set s. \<not> isTokenUnit c \<Longrightarrow> matchRuns [] s = []"
  by (induction s) simp_all

lemma lowerUnit_whitespace:
  "isWhiteSpace c \<Longrightarrow> lowerUnit c = [c]"
  by (auto simp: isWhiteSpace_def lowerUnit_def)

lemma whitespace_no_token:
  "isWhiteSpace c \<Longrightarrow> \<not> isTokenUnit c"
  by (auto simp: isWhiteSpace_def isTokenUnit_def)

lemma tokenize_whitespace:
  assumes "\<forall>c\<in>set txt. isWhiteSpace c"
  shows "tokenize txt = []"
proof -
  have "\<forall>c\<in>set (toLowerCase txt). \<not> isTokenUnit c"
    using assms by (auto simp: toLowerCase_def lowerUnit_whitespace whitespace_no_token)
  then show ?thesis
    by (simp add: tokenize_def matchRuns_no_token)
qed

lemma score_absent:
  "scoreTextWithContext txt None phrases =
     \<lparr>anger = Num 0, joy = Num 0, sad = Num 0, hits = 0, totalWords = length (tokenize txt)\<rparr>"
  by (simp add: scoreTextWithContext_def)

lemma score_no_tokens:
  "tokenize txt = [] \<Longrightarrow>
   scoreTextWithContext txt lexicon phrases =
     \<lparr>anger = Num 0, joy = Num 0, sad = Num 0, hits = 0, totalWords = 0\<rparr>"
  by (simp add: scoreTextWithContext_def split: option.splits)

text \<open>
  C1, as amended. When the lexicon is absent or the text has no token, the scorer returns
  zero for the three emotions and for \<open>hits\<close>, and \<open>totalWords\<close> is the number of
  tokens of the text: it is \<open>0\<close> when the token sequence is empty, and it is not
  \<open>0\<close> when only the lexicon is absent. A text made of white space only has no token,
  so its result is zero in every field. The function is total: no branch raises.
\<close>

theorem score_absent_or_empty:
  "(lexicon = None \<or> tokenize txt = [] \<longrightarrow>
      scoreTextWithContext txt lexicon phrases =
        \<lparr>anger = Num 0, joy = Num 0, sad = Num 0, hits = 0,
         totalWords = length (tokenize txt)\<rparr>)
   \<and> ((\<forall>c\<in>set txt. isWhiteSpace c) \<longrightarrow>
      scoreTextWithContext txt lexicon phrases =
        \<lparr>anger = Num 0, joy = Num 0, sad = Num 0, hits = 0, totalWords = 0\<rparr>)"
  using score_absent score_no_tokens tokenize_whitespace by auto

text \<open>The theorem at a text of two spaces and an absent lexicon.\<close>

theorem score_absent_or_empty_witness:
  "list_all isWhiteSpace (js ''  '')
   \<and> scoreTextWithContext (js ''  '') None [] =
        \<lparr>anger = Num 0, joy = Num 0, sad = Num 0, hits = 0,
         totalWords = length (tokenize (js ''  ''))\<rparr>
   \<and> scoreTextWithContext (js ''  '') None [] =
        \<lparr>anger = Num 0, joy = Num 0, sad = Num 0, hits = 0, totalWords = 0\<rparr>"
proof -
  have ws: "list_all isWhiteSpace (js ''  '')"
    by (simp add: js_simps isWhiteSpace_def)
  then have "\<forall>c\<in>set (js ''  ''). isWhiteSpace c"
    by (simp add: list_all_iff)
  then show ?thesis
    using ws score_absent_or_empty [of None "js ''  ''" "[]"] by blast
qed

lemma tokenize_hello: "tokenize (js ''hello'') = [js ''hello'']"
  by (simp add: token_eval)

text \<open>
  C1 as stated fails: with an absent lexicon and the text \<open>hello\<close> the result has
  \<open>totalWords = 1\<close>.
\<close>

theorem score_absent_counterexample:
  "scoreTextWithContext (js ''hello'') None [] \<noteq>
     \<lparr>anger = Num 0, joy = Num 0, sad = Num 0, hits = 0, totalWords = 0\<rparr>"
  by (simp add: score_absent tokenize_hello)

section \<open>Normalizing twice\<close>

lemma lowerUnit_fixed: "d \<in> set (lowerUnit c) \<Longrightarrow> lowerUnit d = [d]"
  by (auto simp: lowerUnit_def split: if_splits)

lemma toLowerCase_fixed: "\<forall>c\<in>set s. lowerUnit c = [c] \<Longrightarrow> toLowerCase s = s"
  by (induction s) (simp_all add: toLowerCase_def)

lemma set_toLowerCase_fixed: "d \<in> set (toLowerCase s) \<Longrightarrow> lowerUnit d = [d]"
  by (auto simp: toLowerCase_def lowerUnit_fixed)

lemma set_replaceFirst: "set (replaceFirst a b s) \<subseteq> insert b (set s)"
  by (induction s) auto

lemma replaceFirst_absent: "a \<notin> set s \<Longrightarrow> replaceFirst a b s = s"
  by (induction s) auto

lemma contraction_cases:
  "x = w \<or> x \<in> contracted \<Longrightarrow> b \<in> contracted \<Longrightarrow>
   contraction a b x = w \<or> contraction a b x \<in> contracted"
  by (auto simp: contraction_def)

lemma canonContraction_cases:
  "canonContraction w = w \<or> canonContraction w \<in> contracted"
  unfolding canonContraction_def
  by (intro contraction_cases) (simp_all add: contracted_def)

lemma canonContraction_contracted:
  "v \<in> contracted \<Longrightarrow> canonContraction v = v"
  by (auto simp: contracted_def canonContraction_def contraction_def)

lemma canonContraction_idem:
  "canonContraction (canonContraction w) = canonContraction w"
  using canonContraction_cases [of w] canonContraction_contracted by auto

lemma contracted_fixed:
  "v \<in> contracted \<Longrightarrow> d \<in> set v \<Longrightarrow> lowerUnit d = [d]"
  by (auto simp: contracted_def js_simps lowerUnit_def)

lemma original_fixed:
  assumes "d \<in> set (canonContraction (replaceFirst 8217 39 (toLowerCase x)))"
  shows "lowerUnit d = [d]"
proof -
  let ?r = "replaceFirst 8217 39 (toLowerCase x)"
  have r: "\<And>c. c \<in> set ?r \<Longrightarrow> lowerUnit c = [c]"
  proof -
    fix c assume "c \<in> set ?r"
    then have "c = 39 \<or> c \<in> set (toLowerCase x)"
      using set_replaceFirst [of 8217 39 "toLowerCase x"] by auto
    then show "lowerUnit c = [c]"
      by (auto simp: set_toLowerCase_fixed) (simp add: lowerUnit_def)
  qed
  from canonContraction_cases [of ?r] show ?thesis
    using assms r contracted_fixed by auto
qed

text \<open>
  C3, as amended. Normalizing a normalized token returns the same token whenever the
  first normalization trimmed no suffix (its result is the form after the contraction
  block) and the result holds no curly apostrophe. The suffix rules are evaluated once
  each, so a token that one of them shortened can be shortened again.
\<close>

theorem normalizeToken_idempotent_unless_trimmed:
  assumes kept: "normalizeToken x = canonContraction (replaceFirst 8217 39 (toLowerCase x))"
    and curly: "8217 \<notin> set (normalizeToken x)"
  shows "normalizeToken (normalizeToken x) = normalizeToken x"
proof (cases "x = []")
  case True
  then show ?thesis by (simp add: normalizeToken_def)
next
  case False
  let ?y = "normalizeToken x"
  have low: "toLowerCase ?y = ?y"
    by (rule toLowerCase_fixed) (use kept original_fixed in auto)
  have rep: "replaceFirst 8217 39 ?y = ?y"
    using curly by (rule replaceFirst_absent)
  have can: "canonContraction ?y = ?y"
    by (subst (1 2) kept) (rule canonContraction_idem)
  have trimmed: "trimSuffixes ?y = ?y"
    using kept False by (simp add: normalizeToken_def)
  show ?thesis
  proof (cases "?y = []")
    case True
    then show ?thesis by (simp add: normalizeToken_def)
  next
    case False
    then have "normalizeToken ?y = trimSuffixes (canonContraction (replaceFirst 8217 39 (toLowerCase ?y)))"
      by (simp add: normalizeToken_def)
    then show ?thesis
      by (simp only: low rep can trimmed)
  qed
qed

lemma normalizeToken_Happy: "normalizeToken (js ''Happy'') = js ''happy''"
  by (simp add: token_eval)

text \<open>The theorem at \<open>Happy\<close>.\<close>

theorem normalizeToken_idempotent_unless_trimmed_witness:
  "normalizeToken (js ''Happy'') = canonContraction (replaceFirst 8217 39 (toLowerCase (js ''Happy'')))
   \<and> 8217 \<notin> set (normalizeToken (js ''Happy''))
   \<and> normalizeToken (normalizeToken (js ''Happy'')) = normalizeToken (js ''Happy'')"
proof -
  have k: "normalizeToken (js ''Happy'') = canonContraction (replaceFirst 8217 39 (toLowerCase (js ''Happy'')))"
    by (simp add: token_eval)
  have c: "8217 \<notin> set (normalizeToken (js ''Happy''))"
    by (simp add: normalizeToken_Happy) (simp add: js_simps)
  show ?thesis
    using k c normalizeToken_idempotent_unless_trimmed [OF k c] by blast
qed

lemma normalizeToken_focused: "normalizeToken (js ''focused'') = js ''focus''"
  by (simp add: token_eval)

lemma normalizeToken_focus: "normalizeToken (js ''focus'') = js ''focu''"
  by (simp add: token_eval)

text \<open>
  C3 as stated fails: \<open>focused\<close> is normalized to \<open>focus\<close>, and \<open>focus\<close> to
  \<open>focu\<close>.
\<close>

theorem normalizeToken_idempotent_counterexample:
  "normalizeToken (normalizeToken (js ''focused'')) \<noteq> normalizeToken (js ''focused'')"
  by (simp add: normalizeToken_focused normalizeToken_focus)

section \<open>The scan, turn by turn\<close>

lemma scores_addScore:
  "scores (addScore e w st) e' = (if e' = e then plusNum (scores st e') w else scores st e')"
  by (simp add: addScore_def)

lemma hitCount_addScore: "hitCount (addScore e w st) = Suc (hitCount st)"
  by (simp add: addScore_def)

lemma used_addScore: "used (addScore e w st) = used st"
  by (simp add: addScore_def)

lemma used_scoreWord: "used (scoreWord lx ws c i e st) = used st"
  by (simp add: scoreWord_def used_addScore split: option.splits)

lemma scores_scoreWord:
  "scores (scoreWord lx ws c i e st) e' =
     plusNum (scores st e')
       (gain ws c i e' (case getProp (lx e) (ws ! i) of None \<Rightarrow> [] | Some wl \<Rightarrow> [(e, wl)]))"
  by (simp add: scoreWord_def gain_def scores_addScore split: option.splits)

lemma hitCount_scoreWord:
  "hitCount (scoreWord lx ws c i e st) =
     hitCount st + length (case getProp (lx e) (ws ! i) of None \<Rightarrow> [] | Some wl \<Rightarrow> [(e, wl)])"
  by (simp add: scoreWord_def hitCount_addScore split: option.splits)

lemma gain_append: "gain ws c i e (ms @ ns) = plusNum (gain ws c i e ms) (gain ws c i e ns)"
  by (simp add: gain_def sumNum_append)

lemma fold_scoreWord:
  "used (fold (scoreWord lx ws c i) es st) = used st
   \<and> scores (fold (scoreWord lx ws c i) es st) e' =
       plusNum (scores st e') (gain ws c i e'
         (concat (map (\<lambda>e. case getProp (lx e) (ws ! i) of None \<Rightarrow> [] | Some wl \<Rightarrow> [(e, wl)]) es)))
   \<and> hitCount (fold (scoreWord lx ws c i) es st) =
       hitCount st + length
         (concat (map (\<lambda>e. case getProp (lx e) (ws ! i) of None \<Rightarrow> [] | Some wl \<Rightarrow> [(e, wl)]) es))"
proof (induction es arbitrary: st)
  case Nil
  then show ?case by (simp add: gain_def)
next
  case (Cons a es)
  show ?case
    by (simp add: Cons.IH used_scoreWord scores_scoreWord hitCount_scoreWord gain_append
        plusNum_assoc)
qed

lemma used_scanStep:
  "used (scanStep lx phrases ws c i st) =
     (if used st ! i then used st
      else case find (phraseAt ws i) phrases of
             Some p \<Rightarrow> markUsed i (wordCount p) (used st)
           | None \<Rightarrow> used st)"
  by (simp add: scanStep_def used_addScore fold_scoreWord split: option.splits)

lemma scores_scanStep:
  "scores (scanStep lx phrases ws c i st) e =
     (if used st ! i then scores st e
      else plusNum (scores st e) (gain ws c i e (matchesAt lx phrases ws i)))"
  by (simp add: scanStep_def matchesAt_def wordMatches_def scores_addScore fold_scoreWord gain_def
      split: option.splits)

lemma hitCount_scanStep:
  "hitCount (scanStep lx phrases ws c i st) =
     (if used st ! i then hitCount st
      else hitCount st + length (matchesAt lx phrases ws i))"
  by (simp add: scanStep_def matchesAt_def wordMatches_def hitCount_addScore fold_scoreWord
      split: option.splits)

lemma scanUpTo_0: "scanUpTo lx phrases ws 0 = initState (length ws)"
  by (simp add: scanUpTo_def)

lemma scanUpTo_Suc:
  "scanUpTo lx phrases ws (Suc k) =
     scanStep lx phrases ws (contrastIndex ws) k (scanUpTo lx phrases ws k)"
  by (simp add: scanUpTo_def)

lemma scanUpTo_no_phrase:
  assumes none: "\<And>i. find (phraseAt ws i) phrases = None"
    and k: "k \<le> length ws"
  shows "used (scanUpTo lx phrases ws k) = replicate (length ws) False
   \<and> scores (scanUpTo lx phrases ws k) e =
       sumNum (map (\<lambda>i. gain ws (contrastIndex ws) i e (wordMatches lx (ws ! i))) [0..<k])
   \<and> hitCount (scanUpTo lx phrases ws k) =
       (\<Sum>i\<leftarrow>[0..<k]. length (wordMatches lx (ws ! i)))"
  using k
proof (induction k)
  case 0
  then show ?case by (simp add: scanUpTo_0 initState_def)
next
  case (Suc k)
  then have IH: "used (scanUpTo lx phrases ws k) = replicate (length ws) False"
    "scores (scanUpTo lx phrases ws k) e =
       sumNum (map (\<lambda>i. gain ws (contrastIndex ws) i e (wordMatches lx (ws ! i))) [0..<k])"
    "hitCount (scanUpTo lx phrases ws k) = (\<Sum>i\<leftarrow>[0..<k]. length (wordMatches lx (ws ! i)))"
    by simp_all
  have free: "\<not> used (scanUpTo lx phrases ws k) ! k"
    using Suc.prems by (simp add: IH)
  show ?case
    using free
    by (simp add: scanUpTo_Suc used_scanStep scores_scanStep hitCount_scanStep none IH
        matchesAt_def sumNum_append)
qed

lemma scanUpTo_no_phrase_free:
  assumes none: "\<And>i. find (phraseAt ws i) phrases = None"
    and k: "k < length ws"
  shows "\<not> used (scanUpTo lx phrases ws k) ! k"
proof -
  from k have "k \<le> length ws" by simp
  from scanUpTo_no_phrase [OF none this]
  have "used (scanUpTo lx phrases ws k) = replicate (length ws) False"
    by (rule conjunct1)
  with k show ?thesis by simp
qed

section \<open>Case and stem variants\<close>

lemmas lookback_eval = contribution_def Let_def intensity_def soften_def isNegated_def wordAt_def
  coalesce_def INTENSIFIERS_def DIMINISHERS_def NEGATIONS_def contrastBoost_def

lemmas table_eval = normalizeLexiconKeys_def normalizeEntry_def putMax_def getProp_def
  objectPrototypeKeys_def coalesce_def includesSpace_def

lemma normalize_exciteLexicon:
  "normalizeLexiconKeys exciteLexicon Joy = [(js ''excite'', Num 1)]"
  "normalizeLexiconKeys exciteLexicon Anger = []"
  "normalizeLexiconKeys exciteLexicon Sad = []"
proof -
  have "toLowerCase (js ''excite'') = js ''excite''"
    by (simp add: js_simps lower_defs)
  moreover have "normalizeToken (js ''excite'') = js ''excite''"
    by (simp add: token_eval)
  moreover have "\<not> includesSpace (js ''excite'')"
    by (simp add: includesSpace_def js_simps)
  ultimately show "normalizeLexiconKeys exciteLexicon Joy = [(js ''excite'', Num 1)]"
    by (simp add: normalizeLexiconKeys_def exciteLexicon_def normalizeEntry_def
        putMax_def getProp_def objectPrototypeKeys_def coalesce_def)
  show "normalizeLexiconKeys exciteLexicon Anger = []"
    "normalizeLexiconKeys exciteLexicon Sad = []"
    by (simp_all add: normalizeLexiconKeys_def exciteLexicon_def)
qed

lemma phrases_exciteLexicon:
  "extractPhrases (normalizeLexiconKeys exciteLexicon) = []"
  by (simp add: extractPhrases_def emotions_def phrasesOf_def normalize_exciteLexicon
      includesSpace_def) (simp add: js_simps)

lemma tokenize_EXCITED: "tokenize (js ''I am EXCITED'') = [js ''i'', js ''am'', js ''excit'']"
  by (simp add: token_eval)

lemma tokenize_excite: "tokenize (js ''i am excite'') = [js ''i'', js ''am'', js ''excite'']"
  by (simp add: token_eval)

lemma joy_score:
  "tokenize txt \<noteq> [] \<Longrightarrow>
   joy (scoreTextWithContext txt (Some lx) phrases) = scores (scanAll lx phrases (tokenize txt)) Joy"
  by (simp add: scoreTextWithContext_def Let_def)

lemma upt_3: "[0..<3] = [0, 1, 2]"
  by (simp add: upt_rec)

text \<open>
  C2. The claim is that \<open>I am EXCITED\<close> and \<open>i am excite\<close> get the same joy total
  from a lexicon with the entry \<open>excite\<close> under joy. The code at this input: the token
  \<open>excited\<close> is trimmed to \<open>excit\<close>, the key \<open>excite\<close> is stored as \<open>excite\<close> in
  both of its forms, so the first text scores \<open>0\<close> and the second \<open>1\<close>.
\<close>

theorem excited_excite_differ:
  "joy (scoreTextWithContext (js ''I am EXCITED'') (Some (normalizeLexiconKeys exciteLexicon))
          (extractPhrases (normalizeLexiconKeys exciteLexicon))) = Num 0
   \<and> joy (scoreTextWithContext (js ''i am excite'') (Some (normalizeLexiconKeys exciteLexicon))
          (extractPhrases (normalizeLexiconKeys exciteLexicon))) = Num 1"
proof -
  let ?lx = "normalizeLexiconKeys exciteLexicon"
  have a: "scores (scanAll ?lx [] [js ''i'', js ''am'', js ''excit'']) Joy = Num 0"
    unfolding scanAll_def
    by (subst scanUpTo_no_phrase [THEN conjunct2, THEN conjunct1])
       (simp_all add: upt_3 wordMatches_def emotions_def normalize_exciteLexicon gain_def
          getProp_def objectPrototypeKeys_def)
  have b: "scores (scanAll ?lx [] [js ''i'', js ''am'', js ''excite'']) Joy = Num 1"
    unfolding scanAll_def
    by (subst scanUpTo_no_phrase [THEN conjunct2, THEN conjunct1])
       (simp_all add: upt_3 wordMatches_def emotions_def normalize_exciteLexicon gain_def
          getProp_def objectPrototypeKeys_def contrastIndex_def isContrast_def lookback_eval)
  show ?thesis
    by (simp add: joy_score phrases_exciteLexicon tokenize_EXCITED tokenize_excite a b)
qed

section \<open>Phrases before words\<close>

lemma find_unique:
  assumes "x \<in> set xs" and "P x" and "\<forall>y\<in>set xs. P y \<longrightarrow> y = x"
  shows "find P xs = Some x"
  using assms
proof (induction xs)
  case Nil
  then show ?case by simp
next
  case (Cons a xs)
  show ?case
  proof (cases "P a")
    case True
    with Cons.prems(3) have "a = x" by simp
    with True show ?thesis by simp
  next
    case False
    with Cons.prems have mem: "x \<in> set xs" and uniq: "\<forall>y\<in>set xs. P y \<longrightarrow> y = x"
      by auto
    have "find P xs = Some x"
      by (rule Cons.IH [OF mem Cons.prems(2) uniq])
    with False show ?thesis by simp
  qed
qed

lemma find_none: "\<forall>y\<in>set xs. \<not> P y \<Longrightarrow> find P xs = None"
  by (induction xs) simp_all

lemma set_extractPhrases:
  "set (extractPhrases lx) = set (phrasesOf lx Anger) \<union> set (phrasesOf lx Joy) \<union> set (phrasesOf lx Sad)"
  by (simp add: extractPhrases_def emotions_def Un_assoc)

lemma normalize_burnedTable:
  "fold normalizeEntry burnedTable [] =
     [(js ''burned out'', Num 2), (js ''burned'', Num 1), (js ''burn'', Num 1)]"
proof -
  have "toLowerCase (js ''burned'') = js ''burned''"
    by (simp add: js_simps lower_defs)
  moreover have "normalizeToken (js ''burned'') = js ''burn''"
    by (simp add: token_eval)
  moreover have "includesSpace (js ''burned out'')" "\<not> includesSpace (js ''burned'')"
    by (simp_all add: includesSpace_def js_simps)
  ultimately show ?thesis
    by (simp add: burnedTable_def normalizeEntry_def putMax_def getProp_def
        objectPrototypeKeys_def coalesce_def)
qed

lemma normalizePhrase_burned_out: "normalizePhrase (js ''burned out'') = js ''burn out''"
proof -
  have "splitSpace (js ''burned out'') = [js ''burned'', js ''out'']"
    by (simp add: js_simps)
  moreover have "normalizeToken (js ''burned'') = js ''burn''" "normalizeToken (js ''out'') = js ''out''"
    by (simp_all add: token_eval)
  ultimately show ?thesis
    by (simp add: normalizePhrase_def) (simp add: js_simps)
qed

lemma phrasesOf_burned:
  assumes "raw Sad = burnedTable"
  shows "phrasesOf (normalizeLexiconKeys raw) Sad = [burnOut]"
proof -
  have "includesSpace (js ''burned out'')" "\<not> includesSpace (js ''burned'')"
    "\<not> includesSpace (js ''burn'')"
    by (simp_all add: includesSpace_def js_simps)
  then show ?thesis
    by (simp add: phrasesOf_def normalizeLexiconKeys_def assms normalize_burnedTable
        normalizePhrase_burned_out burnOut_def)
qed

lemma tokenize_burned:
  "tokenize (js ''I feel burned out today'') =
     [js ''i'', js ''feel'', js ''burn'', js ''out'', js ''today'']"
  by (simp add: token_eval)

lemma splitSpace_burn_out: "splitSpace (js ''burn out'') = [js ''burn'', js ''out'']"
  by (simp add: js_simps)

lemma wordCount_burnOut: "wordCount burnOut = 2"
  by (simp add: wordCount_def burnOut_def splitSpace_burn_out)

lemma phraseAt_burnOut_2:
  "phraseAt [js ''i'', js ''feel'', js ''burn'', js ''out'', js ''today''] 2 burnOut"
  by (simp add: phraseAt_def burnOut_def splitSpace_burn_out eval_nat_numeral)

lemma phraseAt_burnOut_only:
  assumes "phraseAt [js ''i'', js ''feel'', js ''burn'', js ''out'', js ''today''] i burnOut"
  shows "i = 2"
proof -
  let ?ws = "[js ''i'', js ''feel'', js ''burn'', js ''out'', js ''today'']"
  from assms have lt: "i < 5" and at: "?ws ! i = js ''burn''"
    by (simp_all add: phraseAt_def burnOut_def splitSpace_burn_out)
  from lt consider "i = 0" | "i = 1" | "i = 2" | "i = 3" | "i = 4"
    by arith
  then show ?thesis
    using at by cases (simp_all add: eval_nat_numeral)
qed

lemma score_scan:
  assumes "tokenize txt \<noteq> []"
  shows "scoreTextWithContext txt (Some lx) phrases =
    (let st = scanAll lx phrases (tokenize txt)
     in \<lparr>anger = scores st Anger, joy = scores st Joy, sad = scores st Sad,
         hits = hitCount st, totalWords = length (tokenize txt)\<rparr>)"
  using assms by (simp add: scoreTextWithContext_def Let_def)

lemma markUsed_2: "markUsed i 2 u = u[i := True, Suc i := True]"
  by (simp add: markUsed_def eval_nat_numeral)

text \<open>
  C4. The sad table is \<open>burned out: 2, burned: 1\<close>; the anger and joy tables, once
  normalized, map none of the words of the text and hold no phrase that matches in it.
  Scoring \<open>I feel burned out today\<close> gives one hit, of weight \<open>2\<close>, under sad: the
  phrase; the word \<open>burned\<close> is not scored on its own (sad is \<open>2\<close>, not \<open>3\<close>), and
  the two positions of the phrase are the ones marked used.
\<close>

theorem phrase_precedence:
  assumes sad: "raw Sad = burnedTable"
    and words: "\<forall>e\<in>{Anger, Joy}. \<forall>w\<in>set (tokenize (js ''I feel burned out today'')).
                  map_of (normalizeLexiconKeys raw e) w = None"
    and others: "\<forall>e\<in>{Anger, Joy}. \<forall>p\<in>set (phrasesOf (normalizeLexiconKeys raw) e).
                  \<forall>i. \<not> phraseAt (tokenize (js ''I feel burned out today'')) i p"
  shows "scoreTextWithContext (js ''I feel burned out today'') (Some (normalizeLexiconKeys raw))
           (extractPhrases (normalizeLexiconKeys raw)) =
           \<lparr>anger = Num 0, joy = Num 0, sad = Num 2, hits = 1, totalWords = 5\<rparr>
    \<and> used (scanAll (normalizeLexiconKeys raw) (extractPhrases (normalizeLexiconKeys raw))
          (tokenize (js ''I feel burned out today''))) = [False, False, True, True, False]"
proof -
  let ?lx = "normalizeLexiconKeys raw"
  let ?ph = "extractPhrases ?lx"
  let ?ws = "[js ''i'', js ''feel'', js ''burn'', js ''out'', js ''today'']"
  let ?c = "contrastIndex ?ws"
  have lxSad: "?lx Sad = [(js ''burned out'', Num 2), (js ''burned'', Num 1), (js ''burn'', Num 1)]"
    by (simp add: normalizeLexiconKeys_def sad normalize_burnedTable)
  have own: "map_of (?lx e) w = None" if "w \<in> set ?ws" "w \<noteq> js ''burn''" for e w
  proof (cases e)
    case Sad
    with that show ?thesis by (auto simp: lxSad)
  next
    case Anger
    with that words show ?thesis by (auto simp: tokenize_burned)
  next
    case Joy
    with that words show ?thesis by (auto simp: tokenize_burned)
  qed
  have plain: "w \<notin> set objectPrototypeKeys" if "w \<in> set ?ws" for w
    using that by (auto simp: objectPrototypeKeys_def)
  have none: "getProp (?lx e) w = None" if "w \<in> set ?ws" "w \<noteq> js ''burn''" for e w
    using own [OF that] plain [OF that(1)] by (simp add: getProp_def)
  have wm: "wordMatches ?lx w = []" if "w \<in> set ?ws" "w \<noteq> js ''burn''" for w
    using none [OF that] by (simp add: wordMatches_def emotions_def)
  have pS: "phrasesOf ?lx Sad = [burnOut]"
    using sad by (rule phrasesOf_burned)
  have mem: "burnOut \<in> set ?ph"
    by (simp add: set_extractPhrases pS)
  have oA: "\<not> phraseAt ?ws i p" if "p \<in> set (phrasesOf ?lx Anger)" for p i
    using others that unfolding tokenize_burned by blast
  have oJ: "\<not> phraseAt ?ws i p" if "p \<in> set (phrasesOf ?lx Joy)" for p i
    using others that unfolding tokenize_burned by blast
  have only: "p = burnOut" if "p \<in> set ?ph" "phraseAt ?ws i p" for p i
  proof -
    from that(1) consider "p \<in> set (phrasesOf ?lx Anger)" | "p \<in> set (phrasesOf ?lx Joy)"
      | "p = burnOut"
      unfolding set_extractPhrases pS by auto
    then show ?thesis
      using oA oJ that(2) by cases blast+
  qed
  have uniq: "\<forall>y\<in>set ?ph. phraseAt ?ws 2 y \<longrightarrow> y = burnOut"
  proof (intro ballI impI)
    fix y assume "y \<in> set ?ph" "phraseAt ?ws 2 y"
    then show "y = burnOut" by (rule only)
  qed
  have f2: "find (phraseAt ?ws 2) ?ph = Some burnOut"
    using mem phraseAt_burnOut_2 uniq
    by (rule find_unique [where P = "phraseAt ?ws 2" and x = burnOut and xs = ?ph])
  have fn: "find (phraseAt ?ws i) ?ph = None" if "i \<noteq> 2" for i
  proof -
    have "\<forall>y\<in>set ?ph. \<not> phraseAt ?ws i y"
    proof (intro ballI notI)
      fix y assume y: "y \<in> set ?ph" "phraseAt ?ws i y"
      then have "y = burnOut" by (rule only)
      with y(2) have "i = 2" by (simp add: phraseAt_burnOut_only)
      with that show False by simp
    qed
    then show ?thesis
      by (rule find_none [where P = "phraseAt ?ws i" and xs = ?ph])
  qed
  have m2: "matchesAt ?lx ?ph ?ws 2 = [(Sad, Num 2)]"
    by (simp add: matchesAt_def f2 burnOut_def)
  have mn: "matchesAt ?lx ?ph ?ws i = []" if "i \<noteq> 2" "i < 5" for i
  proof -
    from that consider "i = 0" | "i = 1" | "i = 3" | "i = 4"
      by arith
    then have ab: "?ws ! i \<in> set ?ws \<and> ?ws ! i \<noteq> js ''burn''"
      by cases (simp_all add: eval_nat_numeral)
    show ?thesis
      by (simp only: matchesAt_def fn [OF that(1)] wm [OF conjunct1 [OF ab] conjunct2 [OF ab]]
          option.case)
  qed
  have c: "?c = - 1"
    by (simp add: contrastIndex_def isContrast_def)
  have g: "gain ?ws (- 1) 2 e [(Sad, Num 2)] = (if e = Sad then Num 2 else Num 0)" for e
    by (simp add: gain_def lookback_eval)
  define st where "st k = scanUpTo ?lx ?ph ?ws k" for k
  have step: "st (Suc k) = scanStep ?lx ?ph ?ws (- 1) k (st k)" for k
    by (simp add: st_def scanUpTo_Suc c)
  have idle: "used (st k') = used (st k) \<and> scores (st k') = scores (st k)
      \<and> hitCount (st k') = hitCount (st k)" if "k' = Suc k" "k \<noteq> 2" "k < 5" for k k'
    unfolding that(1)
    by (auto simp: step used_scanStep scores_scanStep hitCount_scanStep fn [OF that(2)]
        mn [OF that(2,3)] gain_def)
  have st0: "used (st 0) = [False, False, False, False, False]" "scores (st 0) = (\<lambda>e. Num 0)"
    "hitCount (st 0) = 0"
    by (simp_all add: st_def scanUpTo_0 initState_def eval_nat_numeral)
  have st1: "used (st 1) = [False, False, False, False, False]" "scores (st 1) = (\<lambda>e. Num 0)"
    "hitCount (st 1) = 0"
    using idle [of 1 0] st0 by simp_all
  have st2: "used (st 2) = [False, False, False, False, False]" "scores (st 2) = (\<lambda>e. Num 0)"
    "hitCount (st 2) = 0"
    using idle [of 2 1] st1 by simp_all
  have "st 3 = scanStep ?lx ?ph ?ws (- 1) 2 (st 2)"
    using step [of 2] by simp
  then have st3: "used (st 3) = [False, False, True, True, False]"
    "scores (st 3) = (\<lambda>e. if e = Sad then Num 2 else Num 0)" "hitCount (st 3) = 1"
    using st2
    by (auto simp: used_scanStep scores_scanStep hitCount_scanStep f2 m2 g wordCount_burnOut
        markUsed_2)
  have st4: "used (st 4) = [False, False, True, True, False]"
    "scores (st 4) = (\<lambda>e. if e = Sad then Num 2 else Num 0)" "hitCount (st 4) = 1"
    using idle [of 4 3] st3 by simp_all
  have st5: "used (st 5) = [False, False, True, True, False]"
    "scores (st 5) = (\<lambda>e. if e = Sad then Num 2 else Num 0)" "hitCount (st 5) = 1"
    using idle [of 5 4] st4 by simp_all
  have all: "scanAll ?lx ?ph ?ws = st 5"
    by (simp add: scanAll_def st_def eval_nat_numeral)
  show ?thesis
    by (simp add: tokenize_burned score_scan all st5)
qed

text \<open>The theorem at the lexicon that holds the sad table only.\<close>

theorem phrase_precedence_witness:
  "burnedLexicon Sad = burnedTable
   \<and> scoreTextWithContext (js ''I feel burned out today'')
         (Some (normalizeLexiconKeys burnedLexicon))
         (extractPhrases (normalizeLexiconKeys burnedLexicon)) =
         \<lparr>anger = Num 0, joy = Num 0, sad = Num 2, hits = 1, totalWords = 5\<rparr>
   \<and> used (scanAll (normalizeLexiconKeys burnedLexicon)
         (extractPhrases (normalizeLexiconKeys burnedLexicon))
         (tokenize (js ''I feel burned out today''))) = [False, False, True, True, False]"
proof -
  have sad: "burnedLexicon Sad = burnedTable"
    by (simp add: burnedLexicon_def)
  have empty: "normalizeLexiconKeys burnedLexicon e = []" if "e \<in> {Anger, Joy}" for e
    using that by (auto simp: normalizeLexiconKeys_def burnedLexicon_def)
  have words: "\<forall>e\<in>{Anger, Joy}. \<forall>w\<in>set (tokenize (js ''I feel burned out today'')).
      map_of (normalizeLexiconKeys burnedLexicon e) w = None"
    by (simp add: empty)
  have others: "\<forall>e\<in>{Anger, Joy}. \<forall>p\<in>set (phrasesOf (normalizeLexiconKeys burnedLexicon) e).
      \<forall>i. \<not> phraseAt (tokenize (js ''I feel burned out today'')) i p"
    by (simp add: phrasesOf_def empty)
  show ?thesis
    using sad phrase_precedence [OF sad words others] by simp
qed
section \<open>Negation and intensifiers\<close>

lemmas phrases_eval = extractPhrases_def phrasesOf_def normalizePhrase_def emotions_def
  wordCount_def includesSpace_def

lemmas scan_steps = scanAll_def scanUpTo_Suc scanUpTo_0 used_scanStep scores_scanStep
  hitCount_scanStep initState_def matchesAt_def phraseAt_def wordMatches_def emotions_def
  gain_def wordCount_def markUsed_def contrastIndex_def isContrast_def

lemma normalize_notHappy:
  "normalizeLexiconKeys notHappyLexicon Joy = [(js ''happy'', Num 1)]"
  "normalizeLexiconKeys notHappyLexicon Sad = [(js ''not happy'', Num (3 / 2))]"
  "normalizeLexiconKeys notHappyLexicon Anger = []"
  by (simp_all add: notHappyLexicon_def table_eval token_eval)

lemma phrases_notHappy:
  "extractPhrases (normalizeLexiconKeys notHappyLexicon) =
     [\<lparr>phrase = js ''not happy'', emotion = Sad, weight = Num (3 / 2)\<rparr>]"
  by (simp add: normalize_notHappy phrases_eval token_eval)

lemma tokenize_not_happy:
  "tokenize (js ''I am not happy'') = [js ''i'', js ''am'', js ''not'', js ''happy'']"
  by (simp add: token_eval)

lemma scan_notHappy:
  "scores (scanAll (normalizeLexiconKeys notHappyLexicon)
     [\<lparr>phrase = js ''not happy'', emotion = Sad, weight = Num (3 / 2)\<rparr>]
     [js ''i'', js ''am'', js ''not'', js ''happy'']) Joy = Num 0"
  by (simp add: scan_steps normalize_notHappy js_simps getProp_def objectPrototypeKeys_def)

text \<open>
  C5 as stated fails: with \<open>happy\<close> under joy and the phrase \<open>not happy\<close> under sad,
  the phrase takes both words of \<open>I am not happy\<close>; its joy total is \<open>0\<close>, not
  negative.
\<close>

theorem negation_counterexample:
  "map_of (normalizeLexiconKeys notHappyLexicon Joy) (js ''happy'') = Some (Num 1)
   \<and> \<not> lessNum (joy (scoreTextWithContext (js ''I am not happy'')
           (Some (normalizeLexiconKeys notHappyLexicon))
           (extractPhrases (normalizeLexiconKeys notHappyLexicon)))) (Num 0)"
  by (simp add: joy_score phrases_notHappy tokenize_not_happy scan_notHappy normalize_notHappy)

lemma getProp_plain: "k \<notin> set objectPrototypeKeys \<Longrightarrow> getProp t k = map_of t k"
  by (simp add: getProp_def split: option.splits)

lemma gain_wordMatches:
  "gain ws c i e (wordMatches lx w) =
     (case getProp (lx e) w of None \<Rightarrow> Num 0 | Some wl \<Rightarrow> contribution ws c i wl)"
  by (cases e) (simp_all add: gain_def wordMatches_def emotions_def split: option.splits)

lemma scanAll_no_phrase:
  assumes "\<forall>p\<in>set phrases. \<forall>i. \<not> phraseAt ws i p"
  shows "scores (scanAll lx phrases ws) e =
     sumNum (map (\<lambda>i. case getProp (lx e) (ws ! i) of
          None \<Rightarrow> Num 0
        | Some wl \<Rightarrow> contribution ws (contrastIndex ws) i wl) [0..<length ws])"
proof -
  have none: "find (phraseAt ws i) phrases = None" for i
    using assms by (simp add: find_None_iff)
  show ?thesis
    unfolding scanAll_def
    by (subst scanUpTo_no_phrase [THEN conjunct2, THEN conjunct1, OF none])
       (simp_all add: gain_wordMatches)
qed

lemma upt_2: "[0..<2] = [0, 1]"
  by (simp add: upt_rec)

lemma upt_4: "[0..<4] = [0, 1, 2, 3]"
  by (simp add: upt_rec)

lemma tokenize_happy:
  "tokenize (js ''I am happy'') = [js ''i'', js ''am'', js ''happy'']"
  by (simp add: token_eval)

text \<open>
  C5, as amended. When \<open>happy\<close> has a positive weight \<open>w\<close> under joy, none of
  \<open>i\<close>, \<open>am\<close>, \<open>not\<close> is a key of the joy table and no phrase of the phrase list
  matches in either text, the joy total of \<open>I am happy\<close> is \<open>w\<close> and that of
  \<open>I am not happy\<close> is \<open>-0.8 w\<close>: strictly smaller, and strictly negative.
\<close>

theorem negation_flips_single_match:
  assumes happy: "map_of (lx Joy) (js ''happy'') = Some (Num w)" and pos: "0 < w"
    and rest: "map_of (lx Joy) (js ''i'') = None" "map_of (lx Joy) (js ''am'') = None"
      "map_of (lx Joy) (js ''not'') = None"
    and ph1: "\<forall>p\<in>set phrases. \<forall>i. \<not> phraseAt (tokenize (js ''I am happy'')) i p"
    and ph2: "\<forall>p\<in>set phrases. \<forall>i. \<not> phraseAt (tokenize (js ''I am not happy'')) i p"
  shows "joy (scoreTextWithContext (js ''I am happy'') (Some lx) phrases) = Num w
    \<and> joy (scoreTextWithContext (js ''I am not happy'') (Some lx) phrases) = Num (- 0.8 * w)
    \<and> lessNum (joy (scoreTextWithContext (js ''I am not happy'') (Some lx) phrases))
        (joy (scoreTextWithContext (js ''I am happy'') (Some lx) phrases))
    \<and> lessNum (joy (scoreTextWithContext (js ''I am not happy'') (Some lx) phrases)) (Num 0)"
proof -
  have plain: "js ''i'' \<notin> set objectPrototypeKeys" "js ''am'' \<notin> set objectPrototypeKeys"
    "js ''not'' \<notin> set objectPrototypeKeys" "js ''happy'' \<notin> set objectPrototypeKeys"
    by (simp_all add: objectPrototypeKeys_def)
  have look: "getProp (lx Joy) (js ''happy'') = Some (Num w)" "getProp (lx Joy) (js ''i'') = None"
    "getProp (lx Joy) (js ''am'') = None" "getProp (lx Joy) (js ''not'') = None"
    by (simp_all add: getProp_plain plain happy rest)
  have a: "joy (scoreTextWithContext (js ''I am happy'') (Some lx) phrases) = Num w"
    using ph1 unfolding tokenize_happy
    by (simp add: joy_score tokenize_happy scanAll_no_phrase
        upt_3 look contrastIndex_def isContrast_def lookback_eval)
  have b: "joy (scoreTextWithContext (js ''I am not happy'') (Some lx) phrases) = Num (- 0.8 * w)"
    using ph2 unfolding tokenize_not_happy
    by (simp add: joy_score tokenize_not_happy scanAll_no_phrase
        upt_4 look contrastIndex_def isContrast_def lookback_eval)
  show ?thesis
    using pos by (simp add: a b)
qed

lemma normalize_plain:
  "normalizeLexiconKeys plainLexicon Anger = [(js ''angry'', Num 1)]"
  "normalizeLexiconKeys plainLexicon Joy = [(js ''happy'', Num 1)]"
  "normalizeLexiconKeys plainLexicon Sad = [(js ''sad'', Num 1)]"
  by (simp_all add: plainLexicon_def table_eval token_eval)

lemma phrases_plain: "extractPhrases (normalizeLexiconKeys plainLexicon) = []"
  by (simp add: normalize_plain phrases_eval token_eval)

text \<open>The theorem at the lexicon with one word for each emotion.\<close>

theorem negation_flips_single_match_witness:
  "map_of (normalizeLexiconKeys plainLexicon Joy) (js ''happy'') = Some (Num 1)
   \<and> joy (scoreTextWithContext (js ''I am happy'') (Some (normalizeLexiconKeys plainLexicon))
          (extractPhrases (normalizeLexiconKeys plainLexicon))) = Num 1
   \<and> joy (scoreTextWithContext (js ''I am not happy'') (Some (normalizeLexiconKeys plainLexicon))
          (extractPhrases (normalizeLexiconKeys plainLexicon))) = Num (- 0.8)"
proof -
  let ?lx = "normalizeLexiconKeys plainLexicon"
  have happy: "map_of (?lx Joy) (js ''happy'') = Some (Num 1)"
    by (simp add: normalize_plain)
  have rest: "map_of (?lx Joy) (js ''i'') = None" "map_of (?lx Joy) (js ''am'') = None"
    "map_of (?lx Joy) (js ''not'') = None"
    by (simp_all add: normalize_plain)
  have ph1: "\<forall>p\<in>set (extractPhrases ?lx). \<forall>i. \<not> phraseAt (tokenize (js ''I am happy'')) i p"
    and ph2: "\<forall>p\<in>set (extractPhrases ?lx). \<forall>i. \<not> phraseAt (tokenize (js ''I am not happy'')) i p"
    by (simp_all add: phrases_plain)
  show ?thesis
    using happy
      negation_flips_single_match [where lx = ?lx and w = 1 and phrases = "extractPhrases ?lx",
        OF happy _ rest ph1 ph2]
    by simp
qed

lemma anger_score:
  "tokenize txt \<noteq> [] \<Longrightarrow>
   anger (scoreTextWithContext txt (Some lx) phrases) =
     scores (scanAll lx phrases (tokenize txt)) Anger"
  by (simp add: scoreTextWithContext_def Let_def)

lemma tokenize_very_angry: "tokenize (js ''very angry'') = [js ''very'', js ''angry'']"
  by (simp add: token_eval)

lemma tokenize_angry: "tokenize (js ''angry'') = [js ''angry'']"
  by (simp add: token_eval)

lemma upt_1: "[0..<1] = [0]"
  by (simp add: upt_rec)

text \<open>
  C7, as amended. When \<open>angry\<close> has the weight \<open>w\<close> under anger, \<open>very\<close> is not a
  key of the anger table and no phrase of the phrase list matches in either text, the
  anger total of \<open>angry\<close> is \<open>w\<close> and that of \<open>very angry\<close> is \<open>1.6\<close> times it.
\<close>

theorem intensifier_scales_single_match:
  assumes angry: "map_of (lx Anger) (js ''angry'') = Some (Num w)"
    and very: "map_of (lx Anger) (js ''very'') = None"
    and ph1: "\<forall>p\<in>set phrases. \<forall>i. \<not> phraseAt (tokenize (js ''very angry'')) i p"
    and ph2: "\<forall>p\<in>set phrases. \<forall>i. \<not> phraseAt (tokenize (js ''angry'')) i p"
  shows "anger (scoreTextWithContext (js ''angry'') (Some lx) phrases) = Num w
    \<and> anger (scoreTextWithContext (js ''very angry'') (Some lx) phrases) =
        timesNum (Num 1.6) (anger (scoreTextWithContext (js ''angry'') (Some lx) phrases))"
proof -
  have plain: "js ''angry'' \<notin> set objectPrototypeKeys" "js ''very'' \<notin> set objectPrototypeKeys"
    by (simp_all add: objectPrototypeKeys_def)
  have look: "getProp (lx Anger) (js ''angry'') = Some (Num w)"
    "getProp (lx Anger) (js ''very'') = None"
    by (simp_all add: getProp_plain plain angry very)
  have a: "anger (scoreTextWithContext (js ''angry'') (Some lx) phrases) = Num w"
    using ph2 unfolding tokenize_angry
    by (simp add: anger_score tokenize_angry scanAll_no_phrase
        upt_1 look contrastIndex_def isContrast_def lookback_eval)
  have b: "anger (scoreTextWithContext (js ''very angry'') (Some lx) phrases) = Num (1.6 * w)"
    using ph1 unfolding tokenize_very_angry
    by (simp add: anger_score tokenize_very_angry scanAll_no_phrase
        upt_2 look contrastIndex_def isContrast_def lookback_eval)
  show ?thesis
    by (simp add: a b)
qed

text \<open>The theorem at the lexicon with one word for each emotion.\<close>

theorem intensifier_scales_single_match_witness:
  "map_of (normalizeLexiconKeys plainLexicon Anger) (js ''angry'') = Some (Num 1)
   \<and> anger (scoreTextWithContext (js ''angry'') (Some (normalizeLexiconKeys plainLexicon))
          (extractPhrases (normalizeLexiconKeys plainLexicon))) = Num 1
   \<and> anger (scoreTextWithContext (js ''very angry'') (Some (normalizeLexiconKeys plainLexicon))
          (extractPhrases (normalizeLexiconKeys plainLexicon))) = Num 1.6"
proof -
  let ?lx = "normalizeLexiconKeys plainLexicon"
  have angry: "map_of (?lx Anger) (js ''angry'') = Some (Num 1)"
    by (simp add: normalize_plain)
  have very: "map_of (?lx Anger) (js ''very'') = None"
    by (simp add: normalize_plain)
  have ph1: "\<forall>p\<in>set (extractPhrases ?lx). \<forall>i. \<not> phraseAt (tokenize (js ''very angry'')) i p"
    and ph2: "\<forall>p\<in>set (extractPhrases ?lx). \<forall>i. \<not> phraseAt (tokenize (js ''angry'')) i p"
    by (simp_all add: phrases_plain)
  show ?thesis
    using angry
      intensifier_scales_single_match [where lx = ?lx and w = 1 and phrases = "extractPhrases ?lx",
        OF angry very ph1 ph2]
    by simp
qed

lemma normalize_veryAngry:
  "normalizeLexiconKeys veryAngryLexicon Anger =
     [(js ''angry'', Num 1), (js ''very angry'', Num 2)]"
  "normalizeLexiconKeys veryAngryLexicon Joy = []"
  "normalizeLexiconKeys veryAngryLexicon Sad = []"
  by (simp_all add: veryAngryLexicon_def table_eval token_eval)

lemma phrases_veryAngry:
  "extractPhrases (normalizeLexiconKeys veryAngryLexicon) =
     [\<lparr>phrase = js ''very angry'', emotion = Anger, weight = Num 2\<rparr>]"
  by (simp add: normalize_veryAngry phrases_eval token_eval)

lemma scan_veryAngry:
  "scores (scanAll (normalizeLexiconKeys veryAngryLexicon)
     [\<lparr>phrase = js ''very angry'', emotion = Anger, weight = Num 2\<rparr>]
     [js ''very'', js ''angry'']) Anger = Num 2"
  "scores (scanAll (normalizeLexiconKeys veryAngryLexicon)
     [\<lparr>phrase = js ''very angry'', emotion = Anger, weight = Num 2\<rparr>]
     [js ''angry'']) Anger = Num 1"
  by (simp_all add: scan_steps normalize_veryAngry js_simps lookback_eval getProp_def
      objectPrototypeKeys_def)

text \<open>
  C7 as stated fails: with \<open>angry: 1\<close> and the phrase \<open>very angry: 2\<close> under anger, the
  phrase takes both words; the anger totals are \<open>2\<close> and \<open>1\<close>.
\<close>

theorem intensifier_counterexample:
  "map_of (normalizeLexiconKeys veryAngryLexicon Anger) (js ''angry'') = Some (Num 1)
   \<and> anger (scoreTextWithContext (js ''very angry'') (Some (normalizeLexiconKeys veryAngryLexicon))
          (extractPhrases (normalizeLexiconKeys veryAngryLexicon))) = Num 2
   \<and> anger (scoreTextWithContext (js ''angry'') (Some (normalizeLexiconKeys veryAngryLexicon))
          (extractPhrases (normalizeLexiconKeys veryAngryLexicon))) = Num 1
   \<and> anger (scoreTextWithContext (js ''very angry'') (Some (normalizeLexiconKeys veryAngryLexicon))
          (extractPhrases (normalizeLexiconKeys veryAngryLexicon))) \<noteq>
       timesNum (Num 1.6)
         (anger (scoreTextWithContext (js ''angry'') (Some (normalizeLexiconKeys veryAngryLexicon))
            (extractPhrases (normalizeLexiconKeys veryAngryLexicon))))"
  by (simp add: anger_score phrases_veryAngry tokenize_very_angry tokenize_angry scan_veryAngry
      normalize_veryAngry)

section \<open>Units of a normalized token\<close>

lemma set_sliceEnd: "set (sliceEnd w n) \<subseteq> set w"
  by (auto simp: sliceEnd_def dest: in_set_takeD)

lemma set_stripSuffixes: "set (stripSuffixes w) \<subseteq> set w"
proof -
  have 1: "set (stripPlural v) \<subseteq> set v" for v
    using set_sliceEnd by (simp add: stripPlural_def)
  have 2: "set (stripLy v) \<subseteq> set v" for v
    using set_sliceEnd by (simp add: stripLy_def)
  have 3: "set (stripNess v) \<subseteq> set v" for v
    using set_sliceEnd by (simp add: stripNess_def)
  have 4: "set (stripIng v) \<subseteq> set v" for v
    using set_sliceEnd by (simp add: stripIng_def)
  have 5: "set (stripEd v) \<subseteq> set v" for v
    using set_sliceEnd by (simp add: stripEd_def)
  have 6: "set (stripErEst v) \<subseteq> set v" for v
    using set_sliceEnd by (simp add: stripErEst_def)
  show ?thesis
    unfolding stripSuffixes_def
    by (meson 1 2 3 4 5 6 subset_trans)
qed

lemma set_trimSuffixes: "set (trimSuffixes w) \<subseteq> set w"
  using set_stripSuffixes by (simp add: trimSuffixes_def Let_def)

lemma trimSuffixes_nonempty: "w \<noteq> [] \<Longrightarrow> trimSuffixes w \<noteq> []"
  by (auto simp: trimSuffixes_def Let_def)

lemma contracted_token_units:
  "v \<in> contracted \<Longrightarrow> d \<in> set v \<Longrightarrow> isTokenUnit d"
  by (auto simp: contracted_def js_simps isTokenUnit_def)

lemma contracted_nonempty: "v \<in> contracted \<Longrightarrow> v \<noteq> []"
  by (auto simp: contracted_def)

lemma set_normalizeToken:
  assumes "c \<in> set (normalizeToken x)"
  shows "c \<in> set (toLowerCase x) \<or> isTokenUnit c"
proof -
  let ?r = "replaceFirst 8217 39 (toLowerCase x)"
  from assms have x: "x \<noteq> []" and "c \<in> set (trimSuffixes (canonContraction ?r))"
    by (auto simp: normalizeToken_def split: if_splits)
  then have c: "c \<in> set (canonContraction ?r)"
    using set_trimSuffixes by blast
  from canonContraction_cases [of ?r] show ?thesis
  proof
    assume "canonContraction ?r = ?r"
    with c have "c \<in> insert 39 (set (toLowerCase x))"
      using set_replaceFirst [of 8217 39 "toLowerCase x"] by auto
    then show ?thesis by (auto simp: isTokenUnit_def)
  next
    assume "canonContraction ?r \<in> contracted"
    with c show ?thesis using contracted_token_units by blast
  qed
qed

lemma space_lowerUnit: "32 \<in> set (lowerUnit c) \<Longrightarrow> c = 32"
  by (auto simp: lowerUnit_def split: if_splits)

lemma includesSpace_toLowerCase:
  "includesSpace (toLowerCase k) \<Longrightarrow> includesSpace k"
  by (auto simp: includesSpace_def toLowerCase_def dest: space_lowerUnit)

lemma includesSpace_normalizeToken:
  "includesSpace (normalizeToken x) \<Longrightarrow> includesSpace x"
proof -
  assume "includesSpace (normalizeToken x)"
  then have "32 \<in> set (normalizeToken x)" by (simp add: includesSpace_def)
  then have "32 \<in> set (toLowerCase x) \<or> isTokenUnit 32" by (rule set_normalizeToken)
  then have "includesSpace (toLowerCase x)"
    by (simp add: isTokenUnit_def includesSpace_def)
  then show ?thesis by (rule includesSpace_toLowerCase)
qed

section \<open>Normalizing the keys of the lexicon\<close>

lemma forms_constructor:
  "toLowerCase (js ''constructor'') = js ''constructor''"
  "normalizeToken (js ''constructor'') = js ''constructor''"
  "toLowerCase (js ''__proto__'') = js ''__proto__''"
  "normalizeToken (js ''__proto__'') = js ''__proto__''"
  by (simp_all add: token_eval)

lemma spaces_constructor:
  "\<not> includesSpace (js ''constructor'')" "\<not> includesSpace (js ''__proto__'')"
  by (simp_all add: includesSpace_def js_simps)

text \<open>
  C9. The claim is that every single-word key of a raw lexicon is stored under its
  lower-case form and under its stemmed form, with the largest of the weights that meet
  there. The code at the raw sad table \<open>constructor: 1, __proto__: 2\<close>: the read
  \<open>out[emotion][k1] ?? 0\<close> finds the function every object inherits under
  \<open>constructor\<close>, so \<open>Math.max\<close> gives \<open>NaN\<close> and the key is stored with \<open>NaN\<close>,
  the weight \<open>1\<close> lost; the write under \<open>__proto__\<close> stores nothing, so that key is in
  the output under neither form.
\<close>

theorem normalizeLexiconKeys_inherited_names:
  "constructorLexicon Sad = [(js ''constructor'', Num 1), (js ''__proto__'', Num 2)]
   \<and> normalizeLexiconKeys constructorLexicon Sad = [(js ''constructor'', NaN)]
   \<and> map_of (normalizeLexiconKeys constructorLexicon Sad) (toLowerCase (js ''constructor''))
       = Some NaN
   \<and> map_of (normalizeLexiconKeys constructorLexicon Sad) (toLowerCase (js ''__proto__''))
       = None"
proof -
  have t: "constructorLexicon Sad = [(js ''constructor'', Num 1), (js ''__proto__'', Num 2)]"
    by (simp add: constructorLexicon_def)
  have inh: "js ''constructor'' \<in> set objectPrototypeKeys"
    by (simp add: objectPrototypeKeys_def)
  have out: "normalizeLexiconKeys constructorLexicon Sad = [(js ''constructor'', NaN)]"
    by (simp add: normalizeLexiconKeys_def t normalizeEntry_def spaces_constructor
        forms_constructor putMax_def getProp_def inh coalesce_def)
  show ?thesis
    by (simp add: t out forms_constructor)
qed

section \<open>Keys that are not inherited names\<close>

text \<open>
  Away from the inherited names the loop keeps both forms of a key and the largest of
  the weights that meet on a form. The tables below hold numbers only, and no form of a
  single-word key is an inherited name.
\<close>

lemma maxNum_idem: "maxNum (maxNum a w) w = maxNum a w"
  by (cases a; cases w) simp_all

lemma map_of_putMax:
  "k \<notin> set objectPrototypeKeys \<Longrightarrow>
   map_of (putMax k w out) k' =
     (if k' = k then Some (maxNum (coalesce (map_of out k) (Num 0)) w) else map_of out k')"
  by (auto simp: putMax_def update_conv' getProp_plain objectPrototypeKeys_def)

lemma single_forms_no_space:
  assumes "\<not> includesSpace k"
  shows "\<not> includesSpace (toLowerCase k)" "\<not> includesSpace (normalizeToken (toLowerCase k))"
  using assms includesSpace_toLowerCase includesSpace_normalizeToken by blast+

lemma map_of_normalizeEntry_multi:
  "includesSpace (fst kv) \<Longrightarrow>
   map_of (normalizeEntry kv out) k' = (if k' = fst kv then Some (snd kv) else map_of out k')"
  by (simp add: normalizeEntry_def update_conv')

lemma map_of_normalizeEntry_single:
  assumes "\<not> includesSpace (fst kv)" and "plainForms (fst kv)"
  shows "map_of (normalizeEntry kv out) k' =
     (if k' = normalizeToken (toLowerCase (fst kv)) \<or> k' = toLowerCase (fst kv)
      then Some (maxNum (coalesce (map_of out k') (Num 0)) (snd kv))
      else map_of out k')"
  using assms
  by (auto simp: normalizeEntry_def plainForms_def map_of_putMax coalesce_def maxNum_idem)

lemma normalizeEntry_keeps_space_keys:
  assumes "includesSpace k'" and "includesSpace (fst kv) \<or> plainForms (fst kv)"
  shows "map_of (normalizeEntry kv out) k' = (if fst kv = k' then Some (snd kv) else map_of out k')"
proof (cases "includesSpace (fst kv)")
  case True
  then show ?thesis by (auto simp: map_of_normalizeEntry_multi)
next
  case False
  then have "k' \<noteq> fst kv" "k' \<noteq> toLowerCase (fst kv)"
    "k' \<noteq> normalizeToken (toLowerCase (fst kv))"
    using assms(1) single_forms_no_space by auto
  with False assms(2) show ?thesis by (simp add: map_of_normalizeEntry_single)
qed

lemma numeric_value: "numeric t \<Longrightarrow> map_of t k = Some v \<Longrightarrow> \<exists>r. v = Num r"
  by (cases v) (auto simp: numeric_def)

lemma numeric_max:
  assumes "numeric t" and "0 \<le> w"
  shows "\<exists>r. maxNum (coalesce (map_of t k) (Num 0)) (Num w) = Num r \<and> w \<le> r
           \<and> (\<forall>v. map_of t k = Some (Num v) \<longrightarrow> v \<le> r)
           \<and> (r = w \<or> map_of t k = Some (Num r))"
proof (cases "map_of t k")
  case None
  with assms(2) show ?thesis by (auto simp: coalesce_def max_def)
next
  case (Some v)
  with assms(1) obtain a where "v = Num a" using numeric_value by blast
  with Some show ?thesis by (auto simp: coalesce_def max_def)
qed

lemma plainEntryI:
  "0 \<le> w \<Longrightarrow> \<forall>c\<in>set k. c < 256 \<Longrightarrow> includesSpace k \<or> plainForms k \<Longrightarrow>
   plainEntry (k, Num w)"
  by (auto simp: plainEntry_def)

lemma plainEntry_weight: "plainEntry kv \<Longrightarrow> \<exists>w. 0 \<le> w \<and> snd kv = Num w"
  by (auto simp: plainEntry_def)

lemma plainEntry_forms: "plainEntry kv \<Longrightarrow> \<not> includesSpace (fst kv) \<Longrightarrow> plainForms (fst kv)"
  by (auto simp: plainEntry_def)

lemma plainEntry_either: "plainEntry kv \<Longrightarrow> includesSpace (fst kv) \<or> plainForms (fst kv)"
  by (simp add: plainEntry_def)

lemma normalizeEntry_numeric:
  assumes "numeric out" and "plainEntry kv"
  shows "numeric (normalizeEntry kv out)"
proof -
  from assms(2) obtain w where w0: "0 \<le> w" and w: "snd kv = Num w"
    using plainEntry_weight by blast
  show ?thesis
  proof (cases "includesSpace (fst kv)")
    case True
    with assms(1) w show ?thesis
      by (auto simp: numeric_def map_of_normalizeEntry_multi)
  next
    case False
    with assms(2) have pf: "plainForms (fst kv)" by (rule plainEntry_forms)
    show ?thesis
      unfolding numeric_def
    proof
      fix k'
      from numeric_max [OF assms(1) w0, of k']
      obtain r where "maxNum (coalesce (map_of out k') (Num 0)) (Num w) = Num r" by blast
      with assms(1) show "map_of (normalizeEntry kv out) k' \<noteq> Some NaN"
        by (simp add: map_of_normalizeEntry_single [OF False pf] w numeric_def)
    qed
  qed
qed

lemma normalizeEntry_grows:
  assumes "numeric out" and "plainEntry kv"
    and "map_of out f = Some (Num v)" and "\<not> includesSpace f"
  shows "\<exists>v'. map_of (normalizeEntry kv out) f = Some (Num v') \<and> v \<le> v'"
proof (cases "includesSpace (fst kv)")
  case True
  with assms(4) have "f \<noteq> fst kv" by auto
  with True assms(3) show ?thesis by (simp add: map_of_normalizeEntry_multi)
next
  case False
  with assms(2) have pf: "plainForms (fst kv)" by (rule plainEntry_forms)
  from assms(2) obtain w where w0: "0 \<le> w" and w: "snd kv = Num w"
    using plainEntry_weight by blast
  from numeric_max [OF assms(1) w0, of f]
  obtain r where r: "maxNum (coalesce (map_of out f) (Num 0)) (Num w) = Num r"
    "\<forall>v. map_of out f = Some (Num v) \<longrightarrow> v \<le> r" by blast
  with assms(3) have "v \<le> r" by simp
  with r(1) assms(3) show ?thesis
    by (simp add: map_of_normalizeEntry_single [OF False pf] w)
qed

lemma normalizeEntry_inserts:
  assumes "numeric out" and "plainEntry kv" and "\<not> includesSpace (fst kv)"
    and "snd kv = Num w"
    and "f = toLowerCase (fst kv) \<or> f = normalizeToken (toLowerCase (fst kv))"
  shows "\<exists>v'. map_of (normalizeEntry kv out) f = Some (Num v') \<and> w \<le> v'"
proof -
  from assms(2,3) have pf: "plainForms (fst kv)" by (rule plainEntry_forms)
  from assms(2,4) have w0: "0 \<le> w" using plainEntry_weight by fastforce
  from numeric_max [OF assms(1) w0, of f]
  obtain r where "maxNum (coalesce (map_of out f) (Num 0)) (Num w) = Num r" "w \<le> r" by blast
  with assms(5) show ?thesis
    by (auto simp: map_of_normalizeEntry_single [OF assms(3) pf] assms(4))
qed

lemma fold_normalizeEntry_numeric:
  assumes "numeric acc" and "\<forall>kv\<in>set t. plainEntry kv"
  shows "numeric (fold normalizeEntry t acc)"
  using assms
proof (induction t arbitrary: acc)
  case Nil
  then show ?case by simp
next
  case (Cons a t)
  from Cons.prems have "numeric (normalizeEntry a acc)"
    by (simp add: normalizeEntry_numeric)
  with Cons.prems show ?case by (simp add: Cons.IH)
qed

lemma fold_normalizeEntry_grows:
  assumes "numeric acc" and "\<forall>kv\<in>set t. plainEntry kv"
    and "map_of acc f = Some (Num v)" and "\<not> includesSpace f"
  shows "\<exists>v'. map_of (fold normalizeEntry t acc) f = Some (Num v') \<and> v \<le> v'"
  using assms(1-3)
proof (induction t arbitrary: acc v)
  case Nil
  then show ?case by simp
next
  case (Cons kv t)
  from Cons.prems have pe: "plainEntry kv" and rest: "\<forall>kv\<in>set t. plainEntry kv" by simp_all
  from normalizeEntry_grows [OF Cons.prems(1) pe Cons.prems(3) assms(4)]
  obtain v1 where v1: "map_of (normalizeEntry kv acc) f = Some (Num v1)" "v \<le> v1" by blast
  have n1: "numeric (normalizeEntry kv acc)"
    using Cons.prems(1) pe by (rule normalizeEntry_numeric)
  from Cons.IH [OF n1 rest v1(1)]
  obtain v2 where "map_of (fold normalizeEntry t (normalizeEntry kv acc)) f = Some (Num v2)"
    "v1 \<le> v2" by blast
  with v1(2) show ?case by (intro exI [of _ v2]) simp
qed

lemma fold_normalizeEntry_inserts:
  assumes "kv \<in> set t" and "\<not> includesSpace (fst kv)" and "snd kv = Num w"
    and "f = toLowerCase (fst kv) \<or> f = normalizeToken (toLowerCase (fst kv))"
    and "numeric acc" and "\<forall>kv\<in>set t. plainEntry kv"
  shows "\<exists>v'. map_of (fold normalizeEntry t acc) f = Some (Num v') \<and> w \<le> v'"
  using assms(1,5,6)
proof (induction t arbitrary: acc)
  case Nil
  then show ?case by simp
next
  case (Cons a t)
  from Cons.prems have pa: "plainEntry a" and rest: "\<forall>kv\<in>set t. plainEntry kv" by simp_all
  have n1: "numeric (normalizeEntry a acc)"
    using Cons.prems(2) pa by (rule normalizeEntry_numeric)
  show ?case
  proof (cases "kv = a")
    case True
    with pa have pe: "plainEntry kv" by simp
    from normalizeEntry_inserts [OF Cons.prems(2) pe assms(2,3,4)]
    obtain v1 where v1: "map_of (normalizeEntry kv acc) f = Some (Num v1)" "w \<le> v1" by blast
    have nf: "\<not> includesSpace f"
      using assms(2,4) single_forms_no_space by auto
    from n1 True have n1': "numeric (normalizeEntry kv acc)" by simp
    from fold_normalizeEntry_grows [OF n1' rest v1(1) nf]
    obtain v2 where "map_of (fold normalizeEntry t (normalizeEntry kv acc)) f = Some (Num v2)"
      "v1 \<le> v2" by blast
    with v1(2) True show ?thesis by (intro exI [of _ v2]) simp
  next
    case False
    with Cons.prems have "kv \<in> set t" by simp
    from Cons.IH [OF this n1 rest] show ?thesis by simp
  qed
qed

lemma normalizeEntry_source:
  assumes "numeric out" and "plainEntry kv" and "\<not> includesSpace k'"
    and "map_of (normalizeEntry kv out) k' = Some v"
  shows "map_of out k' = Some v
    \<or> (\<not> includesSpace (fst kv)
        \<and> (k' = toLowerCase (fst kv) \<or> k' = normalizeToken (toLowerCase (fst kv)))
        \<and> v = snd kv)"
proof (cases "includesSpace (fst kv)")
  case True
  with assms(3) have "k' \<noteq> fst kv" by auto
  with True assms(4) show ?thesis by (simp add: map_of_normalizeEntry_multi)
next
  case False
  with assms(2) have pf: "plainForms (fst kv)" by (rule plainEntry_forms)
  from assms(2) obtain w where w0: "0 \<le> w" and w: "snd kv = Num w"
    using plainEntry_weight by blast
  show ?thesis
  proof (cases "k' = normalizeToken (toLowerCase (fst kv)) \<or> k' = toLowerCase (fst kv)")
    case True
    with assms(4) have v: "v = maxNum (coalesce (map_of out k') (Num 0)) (Num w)"
      by (simp add: map_of_normalizeEntry_single [OF False pf] w)
    from numeric_max [OF assms(1) w0, of k']
    obtain r where "maxNum (coalesce (map_of out k') (Num 0)) (Num w) = Num r"
      "r = w \<or> map_of out k' = Some (Num r)" by blast
    with v w have "v = snd kv \<or> map_of out k' = Some v" by auto
    with False True show ?thesis by blast
  next
    case other: False
    with assms(4) show ?thesis by (simp add: map_of_normalizeEntry_single [OF False pf])
  qed
qed

lemma fold_normalizeEntry_source:
  assumes "\<not> includesSpace k'" and "\<forall>kv\<in>set t. plainEntry kv" and "numeric acc"
    and "map_of (fold normalizeEntry t acc) k' = Some v"
  shows "map_of acc k' = Some v
    \<or> (\<exists>kv\<in>set t. \<not> includesSpace (fst kv)
        \<and> (k' = toLowerCase (fst kv) \<or> k' = normalizeToken (toLowerCase (fst kv)))
        \<and> v = snd kv)"
  using assms(2-4)
proof (induction t arbitrary: acc)
  case Nil
  then show ?case by simp
next
  case (Cons a t)
  from Cons.prems have pa: "plainEntry a" and rest: "\<forall>kv\<in>set t. plainEntry kv"
    and m: "map_of (fold normalizeEntry t (normalizeEntry a acc)) k' = Some v"
    by simp_all
  have n1: "numeric (normalizeEntry a acc)"
    using Cons.prems(2) pa by (rule normalizeEntry_numeric)
  from Cons.IH [OF rest n1 m] show ?case
  proof
    assume "map_of (normalizeEntry a acc) k' = Some v"
    from normalizeEntry_source [OF Cons.prems(2) pa assms(1) this] show ?thesis by auto
  next
    assume "\<exists>kv\<in>set t. \<not> includesSpace (fst kv)
        \<and> (k' = toLowerCase (fst kv) \<or> k' = normalizeToken (toLowerCase (fst kv)))
        \<and> v = snd kv"
    then show ?thesis by auto
  qed
qed

lemma fold_normalizeEntry_space_keys:
  assumes "includesSpace k'" and "distinct (map fst t)" and "\<forall>kv\<in>set t. plainEntry kv"
  shows "map_of (fold normalizeEntry t acc) k' =
     (case map_of t k' of Some w \<Rightarrow> Some w | None \<Rightarrow> map_of acc k')"
  using assms(2,3)
proof (induction t arbitrary: acc)
  case Nil
  then show ?case by simp
next
  case (Cons a t)
  then have d: "distinct (map fst t)" and notin: "fst a \<notin> fst ` set t"
    and rest: "\<forall>kv\<in>set t. plainEntry kv" and pa: "includesSpace (fst a) \<or> plainForms (fst a)"
    by (auto simp: plainEntry_either)
  show ?case
  proof (cases "fst a = k'")
    case True
    with notin have none: "map_of t k' = None" by (simp add: map_of_eq_None_iff)
    have "map_of (normalizeEntry a acc) k' = Some (snd a)"
      using True by (simp add: normalizeEntry_keeps_space_keys [OF assms(1) pa])
    moreover have "map_of (a # t) k' = Some (snd a)"
      using True by (cases a) simp
    ultimately show ?thesis
      by (simp only: fold_simps Cons.IH [OF d rest] none option.case)
  next
    case False
    then have "map_of (normalizeEntry a acc) k' = map_of acc k'"
      by (simp add: normalizeEntry_keeps_space_keys [OF assms(1) pa])
    moreover have "map_of (a # t) k' = map_of t k'"
      using False by (cases a) simp
    ultimately show ?thesis
      by (simp only: fold_simps Cons.IH [OF d rest])
  qed
qed

text \<open>
  For a raw table with distinct keys whose entries are plain: every key without a space
  is in the output under its lower-case form and under its stemmed form, each with a
  weight at least its own; the weight the output holds for a key without a space is the
  weight of one of the raw keys that have this form, so it is the largest of the
  colliding weights; a key with a space has the weight the raw table gives it, and no
  other such key appears.
\<close>

lemma normalizeLexiconKeys_plain_entries:
  assumes dist: "distinct (map fst (raw e))"
    and plain: "\<forall>kv\<in>set (raw e). plainEntry kv"
  shows "(\<forall>kv\<in>set (raw e). \<not> includesSpace (fst kv) \<longrightarrow>
            (\<exists>w v1 v2. snd kv = Num w
               \<and> map_of (normalizeLexiconKeys raw e) (toLowerCase (fst kv)) = Some (Num v1)
               \<and> w \<le> v1
               \<and> map_of (normalizeLexiconKeys raw e) (normalizeToken (toLowerCase (fst kv)))
                   = Some (Num v2)
               \<and> w \<le> v2))
    \<and> (\<forall>k v. \<not> includesSpace k \<and> map_of (normalizeLexiconKeys raw e) k = Some v \<longrightarrow>
            (\<exists>kv\<in>set (raw e). \<not> includesSpace (fst kv)
               \<and> (k = toLowerCase (fst kv) \<or> k = normalizeToken (toLowerCase (fst kv)))
               \<and> v = snd kv))
    \<and> (\<forall>k. includesSpace k \<longrightarrow> map_of (normalizeLexiconKeys raw e) k = map_of (raw e) k)"
proof (intro conjI ballI allI impI)
  have empty: "numeric []"
    by (simp add: numeric_def)
  fix kv assume kv: "kv \<in> set (raw e)" "\<not> includesSpace (fst kv)"
  with plain obtain w where w: "snd kv = Num w"
    using plainEntry_weight by blast
  from fold_normalizeEntry_inserts [OF kv w _ empty plain, of "toLowerCase (fst kv)"]
  obtain v1 where v1: "map_of (fold normalizeEntry (raw e) []) (toLowerCase (fst kv)) = Some (Num v1)"
    "w \<le> v1" by blast
  from fold_normalizeEntry_inserts [OF kv w _ empty plain, of "normalizeToken (toLowerCase (fst kv))"]
  obtain v2 where v2:
    "map_of (fold normalizeEntry (raw e) []) (normalizeToken (toLowerCase (fst kv))) = Some (Num v2)"
    "w \<le> v2" by blast
  from w v1 v2 show "\<exists>w v1 v2. snd kv = Num w
               \<and> map_of (normalizeLexiconKeys raw e) (toLowerCase (fst kv)) = Some (Num v1)
               \<and> w \<le> v1
               \<and> map_of (normalizeLexiconKeys raw e) (normalizeToken (toLowerCase (fst kv)))
                   = Some (Num v2)
               \<and> w \<le> v2"
    by (simp add: normalizeLexiconKeys_def)
next
  have empty: "numeric []"
    by (simp add: numeric_def)
  fix k v assume "\<not> includesSpace k \<and> map_of (normalizeLexiconKeys raw e) k = Some v"
  then have k: "\<not> includesSpace k" and m: "map_of (fold normalizeEntry (raw e) []) k = Some v"
    by (simp_all add: normalizeLexiconKeys_def)
  from fold_normalizeEntry_source [OF k plain empty m]
  show "\<exists>kv\<in>set (raw e). \<not> includesSpace (fst kv)
               \<and> (k = toLowerCase (fst kv) \<or> k = normalizeToken (toLowerCase (fst kv)))
               \<and> v = snd kv"
    by simp
next
  fix k assume "includesSpace k"
  from fold_normalizeEntry_space_keys [OF this dist plain, of "[]"]
  show "map_of (normalizeLexiconKeys raw e) k = map_of (raw e) k"
    by (simp add: normalizeLexiconKeys_def split: option.splits)
qed

lemma forms_Cares:
  "toLowerCase (js ''Cares'') = js ''cares''"
  "normalizeToken (js ''cares'') = js ''care''"
  "toLowerCase (js ''care'') = js ''care''"
  "normalizeToken (js ''care'') = js ''care''"
  by (simp_all add: token_eval)

lemma spaces_collide:
  "\<not> includesSpace (js ''Cares'')" "\<not> includesSpace (js ''care'')" "includesSpace (js ''fed up'')"
  by (simp_all add: includesSpace_def js_simps)

text \<open>
  At a table where \<open>Cares\<close> (weight \<open>1\<close>) and \<open>care\<close> (weight \<open>0.5\<close>) collide on
  \<open>care\<close>, the form keeps the weight \<open>1\<close>.
\<close>

lemma normalizeLexiconKeys_collide:
  "map_of (normalizeLexiconKeys collideLexicon Sad) (js ''care'') = Some (Num 1)
   \<and> map_of (normalizeLexiconKeys collideLexicon Sad) (js ''fed up'') = Some (Num 2)"
proof -
  let ?t = "collideLexicon Sad"
  let ?out = "normalizeLexiconKeys collideLexicon Sad"
  have t: "?t = [(js ''Cares'', Num 1), (js ''care'', Num (1 / 2)), (js ''fed up'', Num 2)]"
    by (simp add: collideLexicon_def)
  have dist: "distinct (map fst ?t)"
    by (simp add: t)
  have ascii: "\<forall>c\<in>set (js ''Cares''). c < 256" "\<forall>c\<in>set (js ''care''). c < 256"
    "\<forall>c\<in>set (js ''fed up''). c < 256"
    by (simp_all add: js_simps)
  have pf: "plainForms (js ''Cares'')" "plainForms (js ''care'')"
    by (simp_all add: plainForms_def forms_Cares objectPrototypeKeys_def)
  have plain: "\<forall>kv\<in>set ?t. plainEntry kv"
    by (simp add: t plainEntryI ascii pf spaces_collide)
  note T = normalizeLexiconKeys_plain_entries [where raw = collideLexicon and e = Sad, OF dist plain]
  from T have A: "\<forall>kv\<in>set ?t. \<not> includesSpace (fst kv) \<longrightarrow>
      (\<exists>w v1 v2. snd kv = Num w \<and> map_of ?out (toLowerCase (fst kv)) = Some (Num v1) \<and> w \<le> v1
         \<and> map_of ?out (normalizeToken (toLowerCase (fst kv))) = Some (Num v2) \<and> w \<le> v2)"
    by (rule conjunct1)
  from T have B: "\<forall>k v. \<not> includesSpace k \<and> map_of ?out k = Some v \<longrightarrow>
      (\<exists>kv\<in>set ?t. \<not> includesSpace (fst kv)
         \<and> (k = toLowerCase (fst kv) \<or> k = normalizeToken (toLowerCase (fst kv)))
         \<and> v = snd kv)"
    by (rule conjunct2 [THEN conjunct1])
  from T have C: "\<forall>k. includesSpace k \<longrightarrow> map_of ?out k = map_of ?t k"
    by (rule conjunct2 [THEN conjunct2])
  have "(js ''Cares'', Num 1) \<in> set ?t" by (simp add: t)
  from A [rule_format, OF this] obtain v2 where
    v2: "map_of ?out (js ''care'') = Some (Num v2)" "1 \<le> v2"
    by (auto simp: spaces_collide forms_Cares)
  from B [rule_format, of "js ''care''" "Num v2"] v2(1)
  have "\<exists>kv\<in>set ?t. \<not> includesSpace (fst kv) \<and> Num v2 = snd kv"
    by (auto simp: spaces_collide)
  then have "v2 = 1 \<or> v2 = 1 / 2"
    by (auto simp: t spaces_collide)
  with v2 have care: "map_of ?out (js ''care'') = Some (Num 1)"
    by auto
  from C [rule_format, of "js ''fed up''"]
  have fed: "map_of ?out (js ''fed up'') = Some (Num 2)"
    by (simp add: spaces_collide t)
  show ?thesis
    using care fed by blast
qed

section \<open>Tokens hold letters and apostrophes only\<close>

lemma lowerUnit_token: "isTokenUnit c \<Longrightarrow> lowerUnit c = [c]"
  by (auto simp: isTokenUnit_def lowerUnit_def)

lemma matchRuns_tokens:
  assumes "\<forall>c\<in>set cur. isTokenUnit c" and "r \<in> set (matchRuns cur s)"
  shows "r \<noteq> [] \<and> (\<forall>c\<in>set r. isTokenUnit c)"
  using assms
proof (induction s arbitrary: cur)
  case Nil
  then show ?case by (auto split: if_splits)
next
  case (Cons a s)
  show ?case
  proof (cases "isTokenUnit a")
    case True
    with Cons.prems have "\<forall>c\<in>set (cur @ [a]). isTokenUnit c" "r \<in> set (matchRuns (cur @ [a]) s)"
      by auto
    then show ?thesis by (rule Cons.IH)
  next
    case False
    with Cons.prems(2) have "r = cur \<and> cur \<noteq> [] \<or> r \<in> set (matchRuns [] s)"
      by (auto split: if_splits)
    then show ?thesis
    proof
      assume "r = cur \<and> cur \<noteq> []"
      with Cons.prems(1) show ?thesis by simp
    next
      assume "r \<in> set (matchRuns [] s)"
      with Cons.IH [of "[]"] show ?thesis by simp
    qed
  qed
qed

lemma normalizeToken_token:
  assumes "r \<noteq> []" and "\<forall>c\<in>set r. isTokenUnit c"
  shows "normalizeToken r \<noteq> [] \<and> (\<forall>c\<in>set (normalizeToken r). isTokenUnit c)"
proof
  have low: "toLowerCase r = r"
    using assms(2) by (intro toLowerCase_fixed) (simp add: lowerUnit_token)
  have "canonContraction (replaceFirst 8217 39 r) \<noteq> []"
    using canonContraction_cases [of "replaceFirst 8217 39 r"] assms(1) contracted_nonempty
    by (cases r) (auto split: if_splits)
  then show "normalizeToken r \<noteq> []"
    using assms(1) by (simp add: normalizeToken_def low trimSuffixes_nonempty)
  show "\<forall>c\<in>set (normalizeToken r). isTokenUnit c"
  proof
    fix c assume "c \<in> set (normalizeToken r)"
    then have "c \<in> set (toLowerCase r) \<or> isTokenUnit c" by (rule set_normalizeToken)
    with low assms(2) show "isTokenUnit c" by auto
  qed
qed

lemma tokenize_tokens:
  assumes "w \<in> set (tokenize txt)"
  shows "w \<noteq> [] \<and> (\<forall>c\<in>set w. isTokenUnit c)"
proof -
  from assms obtain r where r: "r \<in> set (matchRuns [] (toLowerCase txt))" and w: "w = normalizeToken r"
    by (auto simp: tokenize_def)
  from matchRuns_tokens [OF _ r] have "r \<noteq> [] \<and> (\<forall>c\<in>set r. isTokenUnit c)" by simp
  then show ?thesis unfolding w by (intro normalizeToken_token) simp_all
qed

lemma token_no_whitespace: "isTokenUnit c \<Longrightarrow> \<not> isWhiteSpace c"
  by (auto simp: isTokenUnit_def isWhiteSpace_def)

lemma wordAt_tokenize_units:
  "c \<in> set (wordAt (tokenize txt) j) \<Longrightarrow> isTokenUnit c"
  using tokenize_tokens [of "tokenize txt ! nat j" "txt"]
  by (auto simp: wordAt_def split: if_splits)

lemma wordAt_tokenize_no_space: "\<not> includesSpace (wordAt (tokenize txt) j)"
  using wordAt_tokenize_units [of 32 "txt" j] by (auto simp: includesSpace_def isTokenUnit_def)

section \<open>The diminisher look-ahead is not part of the scan\<close>

lemma map_of_filter_key:
  "map_of (filter (\<lambda>kv. P (fst kv)) xs) k = (if P k then map_of xs k else None)"
  by (induction xs) auto

lemma soften_single:
  "soften (tokenize txt) i =
     coalesce (map_of singleWordDiminishers (wordAt (tokenize txt) (int i - 1)))
       (coalesce (map_of singleWordDiminishers (wordAt (tokenize txt) (int i - 2))) 1)"
  by (simp add: soften_def singleWordDiminishers_def wordAt_tokenize_no_space
      map_of_filter_key [where P = "\<lambda>k. \<not> includesSpace k"])

lemma contribution_factors:
  "contribution ws c i wt =
     timesNum wt (Num (intensity ws i * soften ws i
       * (if c \<noteq> - 1 \<and> c < int i then 1.6 else 1) * (if isNegated ws i then - 0.8 else 1)))"
  by (cases wt) (simp_all add: contribution_def Let_def contrastBoost_def)

lemma contribution_lookBack:
  "contribution (tokenize txt) c i wt = timesNum wt (Num (lookBackFactor (tokenize txt) c i))"
  unfolding contribution_factors lookBackFactor_def soften_single
  by (simp add: intensity_def isNegated_def)

lemma trim_trailing:
  assumes "\<forall>c\<in>set t. isWhiteSpace c"
  shows "trim (s @ t) = trim s"
proof (cases "\<forall>c\<in>set s. isWhiteSpace c")
  case True
  with assms have a: "dropWhile isWhiteSpace (s @ t) = []" and b: "dropWhile isWhiteSpace s = []"
    by (auto simp: dropWhile_eq_Nil_conv)
  show ?thesis by (simp only: trim_def a b)
next
  case False
  then have a: "dropWhile isWhiteSpace (s @ t) = dropWhile isWhiteSpace s @ t"
    by (auto simp: dropWhile_append1)
  have b: "dropWhile isWhiteSpace (rev t @ u) = dropWhile isWhiteSpace u" for u
    by (rule dropWhile_append2) (use assms in auto)
  show ?thesis by (simp only: trim_def a rev_append b)
qed

lemma dropWhile_hd: "xs \<noteq> [] \<Longrightarrow> \<not> P (hd xs) \<Longrightarrow> dropWhile P xs = xs"
  by (cases xs) simp_all

lemma trim_clean:
  assumes "s \<noteq> []" and "\<not> isWhiteSpace (hd s)" and "\<not> isWhiteSpace (last s)"
  shows "trim s = s"
proof -
  have a: "dropWhile isWhiteSpace s = s"
    using assms(1,2) by (rule dropWhile_hd)
  have "rev s \<noteq> []" "\<not> isWhiteSpace (hd (rev s))"
    using assms(1,3) by (simp_all add: hd_rev)
  then have b: "dropWhile isWhiteSpace (rev s) = rev s"
    by (rule dropWhile_hd)
  show ?thesis by (simp only: trim_def a b rev_rev_ident)
qed

lemma trim_words:
  assumes "w \<noteq> []" "\<forall>c\<in>set w. \<not> isWhiteSpace c"
    and "v \<noteq> []" "\<forall>c\<in>set v. \<not> isWhiteSpace c"
    and "\<forall>c\<in>set pad. isWhiteSpace c"
  shows "trim (w @ mid @ v @ pad) = w @ mid @ v"
proof -
  have "trim ((w @ mid @ v) @ pad) = trim (w @ mid @ v)"
    using assms(5) by (rule trim_trailing)
  also have "\<dots> = w @ mid @ v"
    using assms(1-4) by (intro trim_clean) (simp_all add: hd_append)
  finally show ?thesis by simp
qed

lemma trim_word:
  assumes "w \<noteq> []" "\<forall>c\<in>set w. \<not> isWhiteSpace c" and "\<forall>c\<in>set pad. isWhiteSpace c"
  shows "trim (w @ pad) = w"
proof -
  have "trim (w @ pad) = trim w"
    using assms(3) by (rule trim_trailing)
  also have "\<dots> = w"
    using assms(1,2) by (intro trim_clean) (simp_all add: hd_in_set)
  finally show ?thesis .
qed

lemma trim_spaces: "trim [32, 32, 32] = []" "trim [32, 32] = []" "trim [32] = []"
  by (simp_all add: trim_def isWhiteSpace_def)

lemma space_white: "isWhiteSpace 32"
  by (simp add: isWhiteSpace_def)

lemma wordAt_nat: "wordAt ws (int n) = (if n < length ws then ws ! n else [])"
  by (simp add: wordAt_def)

lemma w_facts:
  "wordAt ws (int i + 1) = (if 0 < length (drop (Suc i) ws) then drop (Suc i) ws ! 0 else [])"
  "wordAt ws (int i + 2) = (if 1 < length (drop (Suc i) ws) then drop (Suc i) ws ! 1 else [])"
  "wordAt ws (int i + 3) = (if 2 < length (drop (Suc i) ws) then drop (Suc i) ws ! 2 else [])"
  "wordAt ws (int i + 4) = (if 3 < length (drop (Suc i) ws) then drop (Suc i) ws ! 3 else [])"
proof -
  have "int i + 1 = int (i + 1)" "int i + 2 = int (i + 2)" "int i + 3 = int (i + 3)"
    "int i + 4 = int (i + 4)"
    by simp_all
  then show
    "wordAt ws (int i + 1) = (if 0 < length (drop (Suc i) ws) then drop (Suc i) ws ! 0 else [])"
    "wordAt ws (int i + 2) = (if 1 < length (drop (Suc i) ws) then drop (Suc i) ws ! 1 else [])"
    "wordAt ws (int i + 3) = (if 2 < length (drop (Suc i) ws) then drop (Suc i) ws ! 2 else [])"
    "wordAt ws (int i + 4) = (if 3 < length (drop (Suc i) ws) then drop (Suc i) ws ! 3 else [])"
    by (auto simp only: wordAt_nat length_drop nth_drop) (auto simp: less_diff_conv add.commute eval_nat_numeral)
qed

lemma getPostDiminisher_windows:
  assumes clean: "\<forall>w\<in>set ws. w \<noteq> [] \<and> (\<forall>c\<in>set w. \<not> isWhiteSpace c)"
  shows "getPostDiminisher ws i = postDiminisherSpec ws i"
proof -
  let ?rest = "drop (Suc i) ws"
  note w1 = w_facts(1) [of ws i] and w2 = w_facts(2) [of ws i]
    and w3 = w_facts(3) [of ws i] and w4 = w_facts(4) [of ws i]
  have cl: "w \<noteq> [] \<and> (\<forall>c\<in>set w. \<not> isWhiteSpace c)" if "w \<in> set ?rest" for w
    using clean that by (auto dest: in_set_dropD)
  consider "?rest = []" | a where "?rest = [a]" | a b where "?rest = [a, b]"
    | a b c where "?rest = [a, b, c]" | a b c d more where "?rest = a # b # c # d # more"
    by (metis list.exhaust)
  then show ?thesis
  proof cases
    case 1
    then show ?thesis
      by (simp add: getPostDiminisher_def postDiminisherSpec_def windowAfter_def w1 w2 w3 w4
          trim_spaces)
  next
    case (2 a)
    with cl [of a] have a: "a \<noteq> []" "\<forall>c\<in>set a. \<not> isWhiteSpace c" by simp_all
    have "trim (a @ [32, 32, 32]) = a" "trim (a @ [32, 32]) = a" "trim (a @ [32]) = a"
      using a by (simp_all add: trim_word space_white)
    with 2 show ?thesis
      by (simp add: getPostDiminisher_def postDiminisherSpec_def windowAfter_def w1 w2 w3 w4)
  next
    case (3 a b)
    with cl [of a] cl [of b] have a: "a \<noteq> []" "\<forall>c\<in>set a. \<not> isWhiteSpace c"
      and b: "b \<noteq> []" "\<forall>c\<in>set b. \<not> isWhiteSpace c" by simp_all
    have "trim (a @ 32 # b @ [32, 32]) = a @ 32 # b" "trim (a @ 32 # b @ [32]) = a @ 32 # b"
      "trim (a @ 32 # b) = a @ 32 # b"
      using trim_words [OF a b, of "[32, 32]" "[32]"] trim_words [OF a b, of "[32]" "[32]"]
        trim_words [OF a b, of "[]" "[32]"]
      by (simp_all add: space_white)
    with 3 show ?thesis
      by (simp add: getPostDiminisher_def postDiminisherSpec_def windowAfter_def w1 w2 w3 w4)
  next
    case (4 a b c)
    with cl [of a] cl [of b] cl [of c] have a: "a \<noteq> []" "\<forall>c\<in>set a. \<not> isWhiteSpace c"
      and b: "b \<noteq> []" "\<forall>c\<in>set b. \<not> isWhiteSpace c"
      and c: "c \<noteq> []" "\<forall>x\<in>set c. \<not> isWhiteSpace x" by simp_all
    have "trim (a @ 32 # b @ 32 # c @ [32]) = a @ 32 # b @ 32 # c"
      "trim (a @ 32 # b @ 32 # c) = a @ 32 # b @ 32 # c"
      "trim (a @ 32 # b) = a @ 32 # b"
      using trim_words [OF a c, of "[32]" "32 # b @ [32]"] trim_words [OF a c, of "[]" "32 # b @ [32]"]
        trim_words [OF a b, of "[]" "[32]"]
      by (simp_all add: space_white)
    with 4 show ?thesis
      by (simp add: getPostDiminisher_def postDiminisherSpec_def windowAfter_def w1 w2 w3 w4)
  next
    case (5 a b c d more)
    with cl [of a] cl [of b] cl [of c] cl [of d] have a: "a \<noteq> []" "\<forall>c\<in>set a. \<not> isWhiteSpace c"
      and b: "b \<noteq> []" "\<forall>c\<in>set b. \<not> isWhiteSpace c"
      and c: "c \<noteq> []" "\<forall>x\<in>set c. \<not> isWhiteSpace x"
      and d: "d \<noteq> []" "\<forall>x\<in>set d. \<not> isWhiteSpace x" by simp_all
    have "trim (a @ 32 # b @ 32 # c @ 32 # d) = a @ 32 # b @ 32 # c @ 32 # d"
      "trim (a @ 32 # b @ 32 # c) = a @ 32 # b @ 32 # c"
      "trim (a @ 32 # b) = a @ 32 # b"
      using trim_words [OF a d, of "[]" "32 # b @ 32 # c @ [32]"]
        trim_words [OF a c, of "[]" "32 # b @ [32]"]
        trim_words [OF a b, of "[]" "[32]"]
      by simp_all
    with 5 show ?thesis
      by (simp add: getPostDiminisher_def postDiminisherSpec_def windowAfter_def w1 w2 w3 w4)
  qed
qed

lemma score_scanUpTo:
  assumes "tokenize txt \<noteq> []"
  shows "scoreTextWithContext txt (Some lx) phrases =
     \<lparr>anger = scores (scanUpTo lx phrases (tokenize txt) (length (tokenize txt))) Anger,
      joy = scores (scanUpTo lx phrases (tokenize txt) (length (tokenize txt))) Joy,
      sad = scores (scanUpTo lx phrases (tokenize txt) (length (tokenize txt))) Sad,
      hits = hitCount (scanUpTo lx phrases (tokenize txt) (length (tokenize txt))),
      totalWords = length (tokenize txt)\<rparr>"
  using assms by (simp add: scoreTextWithContext_def Let_def scanAll_def)

text \<open>
  C8. On the tokens \<open>ws\<close> of any text, \<open>getPostDiminisher\<close> returns the factor of the
  first of the 4-, 3-, 2- and 1-word windows after a position that is a key of the
  diminisher table, else \<open>1.0\<close>. The scan does not call it. In the turn of the loop at
  \<open>i\<close>, every match that starts there adds its lexicon weight times a factor made
  of the two tokens before \<open>i\<close> and of the pivot alone, with the diminisher taken among
  the single-word keys of the table: no token after \<open>i\<close> is read, and the look-back
  reads single tokens, which hold no space, so a key of several words such as
  \<open>a little bit\<close> is never met. The result of the scorer holds the totals after the
  last turn.
\<close>

theorem post_diminisher_unused:
  assumes ws: "ws = tokenize txt" and i: "i < length ws"
  shows "getPostDiminisher ws j = postDiminisherSpec ws j
    \<and> scores (scanUpTo lx phrases ws (Suc i)) e =
        plusNum (scores (scanUpTo lx phrases ws i) e)
          (if used (scanUpTo lx phrases ws i) ! i then Num 0
           else sumNum (map (\<lambda>m. if fst m = e
                   then timesNum (snd m) (Num (lookBackFactor ws (contrastIndex ws) i))
                   else Num 0)
                 (matchesAt lx phrases ws i)))
    \<and> scoreTextWithContext txt (Some lx) phrases =
        \<lparr>anger = scores (scanUpTo lx phrases ws (length ws)) Anger,
         joy = scores (scanUpTo lx phrases ws (length ws)) Joy,
         sad = scores (scanUpTo lx phrases ws (length ws)) Sad,
         hits = hitCount (scanUpTo lx phrases ws (length ws)),
         totalWords = length ws\<rparr>"
proof (intro conjI)
  have "\<forall>w\<in>set (tokenize txt). w \<noteq> [] \<and> (\<forall>c\<in>set w. \<not> isWhiteSpace c)"
    using tokenize_tokens token_no_whitespace by blast
  then show "getPostDiminisher ws j = postDiminisherSpec ws j"
    unfolding ws by (rule getPostDiminisher_windows)
  show "scores (scanUpTo lx phrases ws (Suc i)) e =
        plusNum (scores (scanUpTo lx phrases ws i) e)
          (if used (scanUpTo lx phrases ws i) ! i then Num 0
           else sumNum (map (\<lambda>m. if fst m = e
                   then timesNum (snd m) (Num (lookBackFactor ws (contrastIndex ws) i))
                   else Num 0)
                 (matchesAt lx phrases ws i)))"
    unfolding ws scanUpTo_Suc scores_scanStep gain_def contribution_lookBack by simp
  from i ws have "tokenize txt \<noteq> []" by auto
  then show "scoreTextWithContext txt (Some lx) phrases =
        \<lparr>anger = scores (scanUpTo lx phrases ws (length ws)) Anger,
         joy = scores (scanUpTo lx phrases ws (length ws)) Joy,
         sad = scores (scanUpTo lx phrases ws (length ws)) Sad,
         hits = hitCount (scanUpTo lx phrases ws (length ws)),
         totalWords = length ws\<rparr>"
    unfolding ws by (rule score_scanUpTo)
qed

lemma tokenize_sad_a_little_bit:
  "tokenize (js ''sad a little bit'') = [js ''sad'', js ''a'', js ''little'', js ''bit'']"
  by (simp add: token_eval)

lemma postDiminisherSpec_a_little_bit:
  "postDiminisherSpec [js ''sad'', js ''a'', js ''little'', js ''bit''] 0 = 0.45"
proof -
  have "windowAfter [js ''sad'', js ''a'', js ''little'', js ''bit''] 0 4 = js ''a little bit''"
    by (simp add: windowAfter_def js_simps)
  then show ?thesis
    by (simp add: postDiminisherSpec_def DIMINISHERS_def coalesce_def)
qed

text \<open>
  The theorem at \<open>sad a little bit\<close>, with one word for each emotion in the lexicon:
  the look-ahead after \<open>sad\<close> gives \<open>0.45\<close>, and the sad total is \<open>1\<close>, the weight
  of \<open>sad\<close>.
\<close>

theorem post_diminisher_unused_witness:
  "tokenize (js ''sad a little bit'') = [js ''sad'', js ''a'', js ''little'', js ''bit'']
   \<and> getPostDiminisher [js ''sad'', js ''a'', js ''little'', js ''bit''] 0 = 0.45
   \<and> sad (scoreTextWithContext (js ''sad a little bit'')
         (Some (normalizeLexiconKeys plainLexicon)) []) = Num 1"
proof -
  let ?lx = "normalizeLexiconKeys plainLexicon"
  let ?ws = "[js ''sad'', js ''a'', js ''little'', js ''bit'']"
  have tok: "?ws = tokenize (js ''sad a little bit'')"
    by (simp add: tokenize_sad_a_little_bit)
  have none: "find (phraseAt ?ws k) [] = None" for k
    by simp
  have free: "\<not> used (scanUpTo ?lx [] ?ws k) ! k" if "k < 4" for k
    using that scanUpTo_no_phrase_free [OF none, of k ?lx] by simp
  have m0: "matchesAt ?lx [] ?ws 0 = [(Sad, Num 1)]"
    by (simp add: matchesAt_def wordMatches_def emotions_def normalize_plain getProp_def
        objectPrototypeKeys_def)
  have mk: "matchesAt ?lx [] ?ws 1 = []" "matchesAt ?lx [] ?ws 2 = []" "matchesAt ?lx [] ?ws 3 = []"
    by (simp_all add: matchesAt_def wordMatches_def emotions_def normalize_plain getProp_def
        objectPrototypeKeys_def eval_nat_numeral)
  have c: "contrastIndex ?ws = - 1"
    by (simp add: contrastIndex_def isContrast_def)
  have f0: "lookBackFactor ?ws (contrastIndex ?ws) 0 = 1"
    unfolding c
    by (simp add: lookBackFactor_def wordAt_def coalesce_def INTENSIFIERS_def
        singleWordDiminishers_def DIMINISHERS_def NEGATIONS_def includesSpace_def js_simps)
  have s0: "scores (scanUpTo ?lx [] ?ws 0) Sad = Num 0"
    by (simp add: scanUpTo_0 initState_def)
  note T0 = post_diminisher_unused [OF tok, where i = 0 and j = 0 and lx = ?lx
      and phrases = "[]" and e = Sad]
  note T1 = post_diminisher_unused [OF tok, where i = 1 and j = 0 and lx = ?lx
      and phrases = "[]" and e = Sad]
  note T2 = post_diminisher_unused [OF tok, where i = 2 and j = 0 and lx = ?lx
      and phrases = "[]" and e = Sad]
  note T3 = post_diminisher_unused [OF tok, where i = 3 and j = 0 and lx = ?lx
      and phrases = "[]" and e = Sad]
  have ahead: "getPostDiminisher ?ws 0 = 0.45"
    using T0 by (simp add: postDiminisherSpec_a_little_bit)
  have s1: "scores (scanUpTo ?lx [] ?ws (Suc 0)) Sad = Num 1"
    using T0 free [of 0] m0 f0 s0 by (simp add: eval_nat_numeral)
  have s2: "scores (scanUpTo ?lx [] ?ws 2) Sad = Num 1"
    using T1 free [of 1] mk s1 by (simp add: eval_nat_numeral)
  have s3: "scores (scanUpTo ?lx [] ?ws 3) Sad = Num 1"
    using T2 free [of 2] mk s2 by (simp add: eval_nat_numeral)
  have s4: "scores (scanUpTo ?lx [] ?ws 4) Sad = Num 1"
    using T3 free [of 3] mk s3 by (simp add: eval_nat_numeral)
  have total: "sad (scoreTextWithContext (js ''sad a little bit'') (Some ?lx) []) = Num 1"
    using T0 s4 by (simp add: eval_nat_numeral)
  show ?thesis
    using tokenize_sad_a_little_bit ahead total by blast
qed

text \<open>
  The two orders of the words, evaluated: after \<open>sad\<close> the words \<open>a little bit\<close>
  change nothing; before it, the single word \<open>little\<close> two places back halves the
  weight, and the factor \<open>0.45\<close> of the key \<open>a little bit\<close> is not applied.
\<close>

lemma tokenize_a_little_bit_sad:
  "tokenize (js ''a little bit sad'') = [js ''a'', js ''little'', js ''bit'', js ''sad'']"
  by (simp add: token_eval)

lemma score_sad_a_little_bit:
  "scoreTextWithContext (js ''sad a little bit'') (Some (normalizeLexiconKeys plainLexicon)) [] =
     \<lparr>anger = Num 0, joy = Num 0, sad = Num 1, hits = 1, totalWords = 4\<rparr>"
  by (simp add: tokenize_sad_a_little_bit score_scan)
     (simp add: eval_nat_numeral scan_steps normalize_plain getProp_def objectPrototypeKeys_def
        lookback_eval)

lemma score_a_little_bit_sad:
  "scoreTextWithContext (js ''a little bit sad'') (Some (normalizeLexiconKeys plainLexicon)) [] =
     \<lparr>anger = Num 0, joy = Num 0, sad = Num 0.5, hits = 1, totalWords = 4\<rparr>"
  by (simp add: tokenize_a_little_bit_sad score_scan)
     (simp add: eval_nat_numeral scan_steps normalize_plain getProp_def objectPrototypeKeys_def
        lookback_eval)

section \<open>The contrast pivot\<close>

lemma findIndexFrom_none:
  "findIndexFrom n P xs = - 1 \<longleftrightarrow> (\<forall>x\<in>set xs. \<not> P x)"
  by (induction xs arbitrary: n) auto

lemma findIndexFrom_first:
  assumes "findIndexFrom n P xs \<noteq> - 1"
  shows "\<exists>k<length xs. findIndexFrom n P xs = int (n + k) \<and> P (xs ! k) \<and> (\<forall>j<k. \<not> P (xs ! j))"
  using assms
proof (induction xs arbitrary: n)
  case Nil
  then show ?case by simp
next
  case (Cons a xs)
  show ?case
  proof (cases "P a")
    case True
    then show ?thesis by (intro exI [of _ 0]) simp
  next
    case False
    with Cons.prems have "findIndexFrom (Suc n) P xs \<noteq> - 1" by simp
    from Cons.IH [OF this] obtain k where k: "k < length xs"
      "findIndexFrom (Suc n) P xs = int (Suc n + k)" "P (xs ! k)" "\<forall>j<k. \<not> P (xs ! j)"
      by blast
    have "\<forall>j<Suc k. \<not> P ((a # xs) ! j)"
      using False k(4) by (auto simp: less_Suc_eq_0_disj)
    with k False show ?thesis
      by (intro exI [of _ "Suc k"]) simp
  qed
qed

lemma isContrast_iff: "isContrast w \<longleftrightarrow> w \<in> contrastWords"
  by (auto simp: isContrast_def contrastWords_def)

lemma contrastIndex_first:
  "(contrastIndex ws = - 1 \<and> (\<forall>w\<in>set ws. w \<notin> contrastWords))
   \<or> (\<exists>k<length ws. contrastIndex ws = int k \<and> ws ! k \<in> contrastWords
         \<and> (\<forall>j<k. ws ! j \<notin> contrastWords))"
proof (cases "contrastIndex ws = - 1")
  case True
  then show ?thesis
    by (simp add: contrastIndex_def findIndexFrom_none isContrast_iff)
next
  case False
  then have "findIndexFrom 0 isContrast ws \<noteq> - 1" by (simp add: contrastIndex_def)
  from findIndexFrom_first [OF this] show ?thesis
    by (simp add: contrastIndex_def isContrast_iff)
qed

lemma contribution_boost:
  "contribution ws c i wt =
     timesNum (Num (if c \<noteq> - 1 \<and> c < int i then 1.6 else 1)) (baseContribution ws i wt)"
  by (cases wt) (simp_all add: contribution_def baseContribution_def Let_def contrastBoost_def)

text \<open>
  C6. For the tokens \<open>ws\<close> of any text, the index \<open>c\<close> the scan computes is the
  first position of a contrast marker, or \<open>-1\<close> when there is none. In the turn of
  the loop at \<open>i\<close>, every match that starts there (the phrase, or the word under each
  emotion that gives it a value) adds to the total of its emotion its weight before
  contrast, times \<open>1.6\<close> when \<open>c\<close> is a position and \<open>i\<close> is strictly after it,
  and times \<open>1\<close> when \<open>i\<close> is at or before \<open>c\<close> or there is no marker. The result
  of the scorer holds the totals after the last turn.
\<close>

theorem contrast_pivot:
  assumes ws: "ws = tokenize txt" and c: "c = contrastIndex ws" and i: "i < length ws"
  shows "((c = - 1 \<and> (\<forall>w\<in>set ws. w \<notin> contrastWords))
      \<or> (\<exists>k<length ws. c = int k \<and> ws ! k \<in> contrastWords \<and> (\<forall>j<k. ws ! j \<notin> contrastWords)))
    \<and> scores (scanUpTo lx phrases ws (Suc i)) e =
        plusNum (scores (scanUpTo lx phrases ws i) e)
          (if used (scanUpTo lx phrases ws i) ! i then Num 0
           else sumNum (map (\<lambda>m. if fst m = e
                   then timesNum (Num (if c \<noteq> - 1 \<and> c < int i then 1.6 else 1))
                          (baseContribution ws i (snd m))
                   else Num 0)
                 (matchesAt lx phrases ws i)))
    \<and> scoreTextWithContext txt (Some lx) phrases =
        \<lparr>anger = scores (scanUpTo lx phrases ws (length ws)) Anger,
         joy = scores (scanUpTo lx phrases ws (length ws)) Joy,
         sad = scores (scanUpTo lx phrases ws (length ws)) Sad,
         hits = hitCount (scanUpTo lx phrases ws (length ws)),
         totalWords = length ws\<rparr>"
proof (intro conjI)
  show "(c = - 1 \<and> (\<forall>w\<in>set ws. w \<notin> contrastWords))
      \<or> (\<exists>k<length ws. c = int k \<and> ws ! k \<in> contrastWords \<and> (\<forall>j<k. ws ! j \<notin> contrastWords))"
    unfolding c by (rule contrastIndex_first)
  show "scores (scanUpTo lx phrases ws (Suc i)) e =
        plusNum (scores (scanUpTo lx phrases ws i) e)
          (if used (scanUpTo lx phrases ws i) ! i then Num 0
           else sumNum (map (\<lambda>m. if fst m = e
                   then timesNum (Num (if c \<noteq> - 1 \<and> c < int i then 1.6 else 1))
                          (baseContribution ws i (snd m))
                   else Num 0)
                 (matchesAt lx phrases ws i)))"
    unfolding c scanUpTo_Suc scores_scanStep gain_def contribution_boost by simp
  from i ws have "tokenize txt \<noteq> []" by auto
  then show "scoreTextWithContext txt (Some lx) phrases =
        \<lparr>anger = scores (scanUpTo lx phrases ws (length ws)) Anger,
         joy = scores (scanUpTo lx phrases ws (length ws)) Joy,
         sad = scores (scanUpTo lx phrases ws (length ws)) Sad,
         hits = hitCount (scanUpTo lx phrases ws (length ws)),
         totalWords = length ws\<rparr>"
    unfolding ws by (rule score_scanUpTo)
qed

lemma tokenize_sad_but_happy:
  "tokenize (js ''sad but happy'') = [js ''sad'', js ''but'', js ''happy'']"
  by (simp add: token_eval)

lemma contrastIndex_sad_but_happy:
  "contrastIndex [js ''sad'', js ''but'', js ''happy''] = 1"
  by (simp add: contrastIndex_def isContrast_def)

text \<open>
  The theorem at \<open>sad but happy\<close>: \<open>but\<close> is at position \<open>1\<close>; the turn at
  \<open>2\<close> adds \<open>1.6\<close> to joy, the turn at \<open>0\<close> adds \<open>1\<close> to sad.
\<close>

theorem contrast_pivot_witness:
  "tokenize (js ''sad but happy'') = [js ''sad'', js ''but'', js ''happy'']
   \<and> contrastIndex [js ''sad'', js ''but'', js ''happy''] = 1
   \<and> scores (scanUpTo (normalizeLexiconKeys plainLexicon) []
         [js ''sad'', js ''but'', js ''happy''] 3) Joy =
       plusNum (scores (scanUpTo (normalizeLexiconKeys plainLexicon) []
         [js ''sad'', js ''but'', js ''happy''] 2) Joy) (Num 1.6)
   \<and> scores (scanUpTo (normalizeLexiconKeys plainLexicon) []
         [js ''sad'', js ''but'', js ''happy''] 1) Sad = Num 1"
proof -
  let ?lx = "normalizeLexiconKeys plainLexicon"
  let ?ws = "[js ''sad'', js ''but'', js ''happy'']"
  have tok: "?ws = tokenize (js ''sad but happy'')"
    by (simp add: tokenize_sad_but_happy)
  have c: "1 = contrastIndex ?ws"
    by (simp add: contrastIndex_sad_but_happy)
  have none: "find (phraseAt ?ws k) [] = None" for k
    by simp
  have free: "\<not> used (scanUpTo ?lx [] ?ws 2) ! 2"
    "\<not> used (scanUpTo ?lx [] ?ws 0) ! 0"
    using scanUpTo_no_phrase_free [OF none, of 2 ?lx] scanUpTo_no_phrase_free [OF none, of 0 ?lx]
    by simp_all
  have m2: "matchesAt ?lx [] ?ws 2 = [(Joy, Num 1)]"
    and m0: "matchesAt ?lx [] ?ws 0 = [(Sad, Num 1)]"
    by (simp_all add: matchesAt_def wordMatches_def emotions_def normalize_plain getProp_def
        objectPrototypeKeys_def)
  have b: "baseContribution ?ws 2 (Num 1) = Num 1" "baseContribution ?ws 0 (Num 1) = Num 1"
    by (simp_all add: baseContribution_def lookback_eval)
  have s0: "scores (scanUpTo ?lx [] ?ws 0) Sad = Num 0"
    by (simp add: scanUpTo_0 initState_def)
  note T2 = contrast_pivot [OF tok c, where i = 2 and lx = ?lx and phrases = "[]" and e = Joy]
  note T0 = contrast_pivot [OF tok c, where i = 0 and lx = ?lx and phrases = "[]" and e = Sad]
  have after: "scores (scanUpTo ?lx [] ?ws 3) Joy =
       plusNum (scores (scanUpTo ?lx [] ?ws 2) Joy) (Num 1.6)"
    using T2 free m2 b by simp
  have before: "scores (scanUpTo ?lx [] ?ws 1) Sad = Num 1"
    using T0 free m0 b s0 by simp
  show ?thesis
    using tokenize_sad_but_happy contrastIndex_sad_but_happy after before by blast
qed

section \<open>The look-back and the used positions\<close>

lemma contribution_explicit:
  "contribution ws c i wt =
     timesNum wt
       (Num (coalesce (map_of INTENSIFIERS (wordAt ws (int i - 1)))
               (coalesce (map_of INTENSIFIERS (wordAt ws (int i - 2))) 1)
         * coalesce (map_of DIMINISHERS (wordAt ws (int i - 1)))
             (coalesce (map_of DIMINISHERS (wordAt ws (int i - 2))) 1)
         * (if c \<noteq> - 1 \<and> c < int i then 1.6 else 1)
         * (if wordAt ws (int i - 1) \<in> set NEGATIONS
               \<or> wordAt ws (int i - 2) \<in> set NEGATIONS
            then - 0.8 else 1)))"
  by (simp add: contribution_factors intensity_def soften_def isNegated_def)

text \<open>
  C10. In the turn at a position \<open>i\<close> that is not used, what the scan adds is computed
  from the tokens \<open>ws[i-1]\<close> and \<open>ws[i-2]\<close> of the token sequence itself. It does
  not read the used flags of any other position: two states that agree on the totals and
  have \<open>i\<close> free give the same totals and hit count after the turn, whatever their
  flags at \<open>i-1\<close> and \<open>i-2\<close>.
\<close>

theorem lookback_ignores_consumption:
  assumes i: "i < length ws" and free: "\<not> used st ! i" and free': "\<not> used st' ! i"
    and same: "scores st' = scores st" "hitCount st' = hitCount st"
  shows "scores (scanStep lx phrases ws c i st') = scores (scanStep lx phrases ws c i st)
    \<and> hitCount (scanStep lx phrases ws c i st') = hitCount (scanStep lx phrases ws c i st)
    \<and> scores (scanStep lx phrases ws c i st) e =
        plusNum (scores st e)
          (sumNum (map (\<lambda>m. if fst m = e
             then timesNum (snd m)
               (Num (coalesce (map_of INTENSIFIERS (wordAt ws (int i - 1)))
                       (coalesce (map_of INTENSIFIERS (wordAt ws (int i - 2))) 1)
                 * coalesce (map_of DIMINISHERS (wordAt ws (int i - 1)))
                     (coalesce (map_of DIMINISHERS (wordAt ws (int i - 2))) 1)
                 * (if c \<noteq> - 1 \<and> c < int i then 1.6 else 1)
                 * (if wordAt ws (int i - 1) \<in> set NEGATIONS
                       \<or> wordAt ws (int i - 2) \<in> set NEGATIONS
                    then - 0.8 else 1)))
             else Num 0)
           (matchesAt lx phrases ws i)))
    \<and> hitCount (scanStep lx phrases ws c i st) = hitCount st + length (matchesAt lx phrases ws i)"
proof (intro conjI)
  show "scores (scanStep lx phrases ws c i st') = scores (scanStep lx phrases ws c i st)"
    using free free' same by (intro ext) (simp add: scores_scanStep)
  show "hitCount (scanStep lx phrases ws c i st') = hitCount (scanStep lx phrases ws c i st)"
    using free free' same by (simp add: hitCount_scanStep)
  show "scores (scanStep lx phrases ws c i st) e =
        plusNum (scores st e)
          (sumNum (map (\<lambda>m. if fst m = e
             then timesNum (snd m)
               (Num (coalesce (map_of INTENSIFIERS (wordAt ws (int i - 1)))
                       (coalesce (map_of INTENSIFIERS (wordAt ws (int i - 2))) 1)
                 * coalesce (map_of DIMINISHERS (wordAt ws (int i - 1)))
                     (coalesce (map_of DIMINISHERS (wordAt ws (int i - 2))) 1)
                 * (if c \<noteq> - 1 \<and> c < int i then 1.6 else 1)
                 * (if wordAt ws (int i - 1) \<in> set NEGATIONS
                       \<or> wordAt ws (int i - 2) \<in> set NEGATIONS
                    then - 0.8 else 1)))
             else Num 0)
           (matchesAt lx phrases ws i)))"
    unfolding scores_scanStep gain_def contribution_explicit using free by simp
  show "hitCount (scanStep lx phrases ws c i st) = hitCount st + length (matchesAt lx phrases ws i)"
    using free by (simp add: hitCount_scanStep)
qed

lemma normalize_ohNo:
  "normalizeLexiconKeys ohNoLexicon Joy = [(js ''happy'', Num 1)]"
  "normalizeLexiconKeys ohNoLexicon Sad = [(js ''oh no'', Num 1)]"
  "normalizeLexiconKeys ohNoLexicon Anger = []"
  by (simp_all add: ohNoLexicon_def table_eval token_eval)

lemma phrases_ohNo: "extractPhrases (normalizeLexiconKeys ohNoLexicon) = [ohNo]"
  by (simp add: normalize_ohNo phrases_eval token_eval ohNo_def)

lemma tokenize_oh_no_happy:
  "tokenize (js ''oh no happy'') = [js ''oh'', js ''no'', js ''happy'']"
  by (simp add: token_eval)

text \<open>
  The theorem at \<open>oh no happy\<close> with the phrase \<open>oh no\<close> under sad and \<open>happy\<close>
  under joy: the phrase uses positions \<open>0\<close> and \<open>1\<close>, and the used \<open>no\<close> still
  negates \<open>happy\<close>.
\<close>

theorem lookback_ignores_consumption_witness:
  "tokenize (js ''oh no happy'') = [js ''oh'', js ''no'', js ''happy'']
   \<and> extractPhrases (normalizeLexiconKeys ohNoLexicon) = [ohNo]
   \<and> used (scanUpTo (normalizeLexiconKeys ohNoLexicon) [ohNo]
      [js ''oh'', js ''no'', js ''happy''] 2) = [True, True, False]
   \<and> scores (scanUpTo (normalizeLexiconKeys ohNoLexicon) [ohNo]
      [js ''oh'', js ''no'', js ''happy''] 3) Joy = Num (- 0.8)
   \<and> scores (scanStep (normalizeLexiconKeys ohNoLexicon) [ohNo]
        [js ''oh'', js ''no'', js ''happy''] (- 1) 2
        ((scanUpTo (normalizeLexiconKeys ohNoLexicon) [ohNo]
           [js ''oh'', js ''no'', js ''happy''] 2)\<lparr>used := [False, False, False]\<rparr>)) Joy
       = Num (- 0.8)"
proof -
  let ?lx = "normalizeLexiconKeys ohNoLexicon"
  let ?ws = "[js ''oh'', js ''no'', js ''happy'']"
  let ?st = "scanUpTo ?lx [ohNo] ?ws 2"
  let ?st' = "?st\<lparr>used := [False, False, False]\<rparr>"
  have u2: "used ?st = [True, True, False]"
    by (simp add: eval_nat_numeral scan_steps normalize_ohNo ohNo_def js_simps)
  have s2: "scores ?st Joy = Num 0"
    by (simp add: eval_nat_numeral scan_steps normalize_ohNo ohNo_def js_simps)
  have c: "contrastIndex ?ws = - 1"
    by (simp add: contrastIndex_def isContrast_def)
  have m2: "matchesAt ?lx [ohNo] ?ws 2 = [(Joy, Num 1)]"
    by (simp add: matchesAt_def phraseAt_def wordMatches_def emotions_def normalize_ohNo ohNo_def
        getProp_def objectPrototypeKeys_def js_simps)
  have prevs: "wordAt ?ws (int 2 - 1) = js ''no''" "wordAt ?ws (int 2 - 2) = js ''oh''"
    by (simp_all add: wordAt_def)
  have inside: "2 < length ?ws"
    by simp
  have free: "\<not> used ?st ! 2" and free': "\<not> used ?st' ! 2"
    by (simp_all add: u2)
  have same: "scores ?st' = scores ?st" "hitCount ?st' = hitCount ?st"
    by simp_all
  note T = lookback_ignores_consumption [OF inside free free' same,
      where lx = ?lx and phrases = "[ohNo]" and c = "- 1" and e = Joy]
  note T1 = T [THEN conjunct1] and T3 = T [THEN conjunct2, THEN conjunct2, THEN conjunct1]
  have neg: "js ''no'' \<in> set NEGATIONS"
    by (simp add: NEGATIONS_def)
  have tabs: "map_of INTENSIFIERS (js ''no'') = None" "map_of INTENSIFIERS (js ''oh'') = None"
    "map_of DIMINISHERS (js ''no'') = None" "map_of DIMINISHERS (js ''oh'') = None"
    by (simp_all add: INTENSIFIERS_def DIMINISHERS_def)
  have step: "scores (scanStep ?lx [ohNo] ?ws (- 1) 2 ?st) Joy = Num (- 0.8)"
    by (simp only: T3 m2 prevs s2 tabs neg) (simp add: coalesce_def)
  have "scanUpTo ?lx [ohNo] ?ws (Suc 2) = scanStep ?lx [ohNo] ?ws (- 1) 2 ?st"
    by (simp only: scanUpTo_Suc c)
  then have "scanUpTo ?lx [ohNo] ?ws 3 = scanStep ?lx [ohNo] ?ws (- 1) 2 ?st"
    by (simp only: Suc_numeral) simp
  with step have a: "scores (scanUpTo ?lx [ohNo] ?ws 3) Joy = Num (- 0.8)"
    by (simp only:)
  have b: "scores (scanStep ?lx [ohNo] ?ws (- 1) 2 ?st') Joy = Num (- 0.8)"
    by (simp only: T1 step)
  show ?thesis
    using tokenize_oh_no_happy phrases_ohNo u2 a b by blast
qed

section \<open>An inherited name as a token\<close>

lemma tokenize_but_constructor:
  "tokenize (js ''but constructor'') = [js ''but'', js ''constructor'']"
  by (simp add: token_eval)

text \<open>
  The token \<open>constructor\<close> is read under every emotion, whatever the tables hold: the
  value is not a number, so each total becomes \<open>NaN\<close>, with three hits. The contrast
  factor and the look-back apply to it as to any match.
\<close>

lemma score_but_constructor:
  "scoreTextWithContext (js ''but constructor'') (Some (normalizeLexiconKeys plainLexicon)) [] =
     \<lparr>anger = NaN, joy = NaN, sad = NaN, hits = 3, totalWords = 2\<rparr>"
proof -
  let ?lx = "normalizeLexiconKeys plainLexicon"
  let ?ws = "[js ''but'', js ''constructor'']"
  have m0: "matchesAt ?lx [] ?ws 0 = []"
    by (simp add: matchesAt_def wordMatches_def emotions_def normalize_plain getProp_def
        objectPrototypeKeys_def)
  have m1: "matchesAt ?lx [] ?ws (Suc 0) = [(Anger, NaN), (Joy, NaN), (Sad, NaN)]"
    by (simp add: matchesAt_def wordMatches_def emotions_def normalize_plain getProp_def
        objectPrototypeKeys_def)
  define st where "st k = scanUpTo ?lx [] ?ws k" for k
  have step: "st (Suc k) = scanStep ?lx [] ?ws (contrastIndex ?ws) k (st k)" for k
    by (simp add: st_def scanUpTo_Suc)
  have st0: "used (st 0) = [False, False]" "scores (st 0) = (\<lambda>e. Num 0)" "hitCount (st 0) = 0"
    by (simp_all add: st_def scanUpTo_0 initState_def eval_nat_numeral)
  have st1: "used (st 1) = [False, False]" "scores (st 1) = (\<lambda>e. Num 0)" "hitCount (st 1) = 0"
    using step [of 0] st0
    by (auto simp: used_scanStep scores_scanStep hitCount_scanStep m0 gain_def)
  have "st 2 = scanStep ?lx [] ?ws (contrastIndex ?ws) 1 (st 1)"
    using step [of 1] by (simp add: numeral_2_eq_2)
  then have st2: "scores (st 2) e = NaN" "hitCount (st 2) = 3" for e
    using st1
    by (cases e; simp add: scores_scanStep hitCount_scanStep m1 gain_def contribution_factors)+
  have all: "scanUpTo ?lx [] ?ws (Suc (Suc 0)) = st 2"
    by (simp add: st_def numeral_2_eq_2)
  show ?thesis
    by (simp add: tokenize_but_constructor score_scanUpTo all st2)
qed

end
